theory Spec2Isabelle
  imports Main
begin

section \<open>Reconnect scheduler: \<open>autoTry\<close>\<close>

text \<open>
  \<open>autoTry(fn)\<close> keeps three closure variables (\<open>triesAtStep\<close>, \<open>pos\<close>,
  \<open>timeout\<close>) and re-arms a timer from inside the timer's own callback. The model
  is the closure's state plus the number of calls made to \<open>fn\<close>; \<open>timeout\<close> holds the
  delay (in milliseconds) of the timer that is armed, and \<open>None\<close> when no timer is armed.
  \<open>fn\<close> is taken to return normally, as an asynchronous connect attempt does.
\<close>

record autoTry_state =
  triesAtStep :: nat
  pos :: nat
  timeout :: "nat option"
  fn_calls :: nat

definition steps :: "nat list" where
  "steps = [1000, 3000, 10000]"

text \<open>\<open>steps[pos]\<close>; past the end the read is \<open>undefined\<close>, which \<open>setTimeout\<close> takes as 1 ms.\<close>

definition steps_at :: "nat \<Rightarrow> nat" where
  "steps_at p = (if p < length steps then steps ! p else 1)"

definition tick :: "autoTry_state \<Rightarrow> autoTry_state" where
  "tick s = s\<lparr>timeout := Some (steps_at (pos s))\<rparr>"

text \<open>The body of the timer callback: call \<open>fn\<close>, count the try, maybe advance, re-arm.\<close>

definition timer_fires :: "autoTry_state \<Rightarrow> autoTry_state" where
  "timer_fires s =
     (let s1 = s\<lparr>fn_calls := fn_calls s + 1\<rparr>;
          s2 = s1\<lparr>triesAtStep := triesAtStep s1 + 1\<rparr>;
          s3 = (if triesAtStep s2 > 5
                then s2\<lparr>triesAtStep := 0,
                        pos := (if pos s2 \<ge> 2 then 0 else pos s2 + 1)\<rparr>
                else s2)
      in tick s3)"

text \<open>The state right after \<open>autoTry(fn)\<close> has returned (its first \<open>tick()\<close> done).\<close>

definition autoTry :: "autoTry_state" where
  "autoTry = tick \<lparr>triesAtStep = 0, pos = 0, timeout = None, fn_calls = 0\<rparr>"

text \<open>The handle \<open>autoTry\<close> returns: \<open>if (timeout) clearTimeout(timeout)\<close>.\<close>

definition cancel :: "autoTry_state \<Rightarrow> autoTry_state" where
  "cancel s = (case timeout s of None \<Rightarrow> s | Some d \<Rightarrow> s\<lparr>timeout := None\<rparr>)"

text \<open>The delays of the first \<open>n\<close> timers that fire, in order; none once nothing is armed.\<close>

fun delays :: "nat \<Rightarrow> autoTry_state \<Rightarrow> nat list" where
  "delays 0 s = []"
| "delays (Suc n) s =
     (case timeout s of None \<Rightarrow> [] | Some d \<Rightarrow> d # delays n (timer_fires s))"

section \<open>Transaction loading state\<close>

text \<open>
  A property of an options object is absent, present with the value \<open>undefined\<close>, or
  present with a value: \<open>Object.assign\<close> and the spread copy the last two alike.
  A field of the state reads \<open>undefined\<close> (\<open>None\<close>) or a value. Counts are JavaScript
  numbers holding integers; \<open>0\<close> is falsy.
\<close>

datatype 'a own_property = Absent | Undefined | Value 'a

text \<open>
  Modelled from the spec: the type \<open>LoadingOptions\<close> is declared in \<open>internalRpcSchema\<close>,
  which is not among the sources. Whatever it declares, an object with more properties is
  assignable to it (the copy that the \<open>state\<close> getter returns, for one), and the spread and
  \<open>Object.assign\<close> copy every own property; so an argument may carry each of the four
  properties of \<open>LoadingState\<close>. Properties under other names would be copied as well, and
  nothing reads them.
\<close>

record LoadingOptions =
  opt_title :: "string own_property"
  opt_description :: "string own_property"
  opt_itemsInQueue :: "int own_property"
  opt_itemsCompleted :: "int own_property"

record LoadingState =
  title :: "string option"
  description :: "string option"
  itemsInQueue :: "int option"
  itemsCompleted :: "int option"

datatype loading_arg = ArgString string | ArgOptions LoadingOptions | ArgUndefined

text \<open>\<open>#state\<close> and the payloads handed to \<open>#sender\<close>, oldest first. A failing sender is
  caught and logged by \<open>#sendState\<close>, so the list records every attempt.\<close>

record TransactionLoadingState =
  loading_state :: "LoadingState option"
  loading_sent :: "LoadingState list"

definition empty_options :: "LoadingOptions" where
  "empty_options =
     \<lparr>opt_title = Absent, opt_description = Absent, opt_itemsInQueue = Absent,
      opt_itemsCompleted = Absent\<rparr>"

definition empty_state :: "LoadingState" where
  "empty_state = \<lparr>title = None, description = None, itemsInQueue = None, itemsCompleted = None\<rparr>"


text \<open>The first lines of \<open>start\<close> and \<open>update\<close>: a string is a title, \<open>undefined\<close> is \<open>{}\<close>.\<close>

fun normalize_options :: "loading_arg \<Rightarrow> LoadingOptions" where
  "normalize_options (ArgString s) = empty_options\<lparr>opt_title := Value s\<rparr>"
| "normalize_options ArgUndefined = empty_options"
| "normalize_options (ArgOptions opts) = opts"

fun prop_read :: "'a own_property \<Rightarrow> 'a option" where
  "prop_read Absent = None"
| "prop_read Undefined = None"
| "prop_read (Value v) = Some v"

text \<open>\<open>{ ...options }\<close>\<close>

definition spread_options :: "LoadingOptions \<Rightarrow> LoadingState" where
  "spread_options opts =
     \<lparr>title = prop_read (opt_title opts), description = prop_read (opt_description opts),
      itemsInQueue = prop_read (opt_itemsInQueue opts),
      itemsCompleted = prop_read (opt_itemsCompleted opts)\<rparr>"



text \<open>Truthiness of an optional number: \<open>undefined\<close> and \<open>0\<close> are falsy.\<close>

fun truthy_num :: "int option \<Rightarrow> bool" where
  "truthy_num None = False"
| "truthy_num (Some n) = (n \<noteq> 0)"

definition sendState :: "TransactionLoadingState \<Rightarrow> TransactionLoadingState" where
  "sendState t =
     t\<lparr>loading_sent := loading_sent t @
          [case loading_state t of None \<Rightarrow> empty_state | Some st \<Rightarrow> st]\<rparr>"

definition start :: "TransactionLoadingState \<Rightarrow> loading_arg \<Rightarrow> TransactionLoadingState" where
  "start t options =
     (let st = spread_options (normalize_options options);
          st' = (if truthy_num (itemsInQueue st) then st\<lparr>itemsCompleted := Some 0\<rparr> else st)
      in sendState (t\<lparr>loading_state := Some st'\<rparr>))"














section \<open>IO component (\<open>component.ts\<close>)\<close>

text \<open>
  JavaScript values that travel as props, state and return values. Numbers hold integers
  here; nothing below computes with them.
\<close>

datatype jsvalue =
    JUndefined
  | JNull
  | JBool bool
  | JNum int
  | JStr string
  | JArr "jsvalue list"
  | JObj "(string \<times> jsvalue) list"

datatype io_error_kind = CANCELED_ERROR | TRANSACTION_CLOSED

text \<open>What the code throws: zod's parse error, a read through \<open>undefined\<close>, \<open>new Error(msg)\<close>
  and \<open>new IOError(kind)\<close>.\<close>

datatype exn = ZodError | TypeError | Error string | IOError io_error_kind

text \<open>A promise settles once: \<open>resolve\<close> and \<open>reject\<close> on a settled promise do nothing.\<close>

datatype 'a promise = Pending | Fulfilled 'a | Rejected exn

fun resolve :: "'a promise \<Rightarrow> 'a \<Rightarrow> 'a promise" where
  "resolve Pending v = Fulfilled v"
| "resolve (Fulfilled w) v = Fulfilled w"
| "resolve (Rejected e) v = Rejected e"

fun reject :: "'a promise \<Rightarrow> exn \<Rightarrow> 'a promise" where
  "reject Pending e = Rejected e"
| "reject (Fulfilled w) e = Fulfilled w"
| "reject (Rejected d) e = Rejected d"

text \<open>
  \<open>ioSchema[methodName]\<close>: three zod validators. \<open>parse\<close> returns the parsed value or
  throws; \<open>None\<close> is the throw. The catalogue \<open>ioSchema\<close> itself is not among the
  sources and is a parameter of \<open>component\<close>.
\<close>

record zod_schema =
  parse_props :: "jsvalue \<Rightarrow> jsvalue option"
  parse_state :: "jsvalue \<Rightarrow> jsvalue option"
  parse_returns :: "jsvalue \<Rightarrow> jsvalue option"

record ComponentInstance =
  methodName :: string
  label :: string
  props :: jsvalue
  state :: jsvalue

text \<open>The one function ever registered as a state-change handler: the \<open>render\<close> closure of
  the render loop the component was handed to.\<close>

datatype callback = Render

text \<open>
  The closure variables of one \<open>component(...)\<close> call. \<open>resolver\<close> is assigned inside
  the promise's executor, which runs during construction, so \<open>if (resolver)\<close> always
  holds and the variable is not kept. \<open>handleStateChange\<close> is the optional fourth
  argument, taken as a pure function from the parsed state to the new props.
  \<open>validator\<close> is the one member the IO client reads that \<open>component.ts\<close> does not have
  (see \<open>handleValidation\<close> below); \<open>component\<close> leaves it unset.
\<close>

record ComponentType =
  getInstance :: ComponentInstance
  onStateChangeHandler :: "callback option"
  returnValue :: "jsvalue promise"
  schema :: zod_schema
  handleStateChange :: "(jsvalue \<Rightarrow> jsvalue) option"
  validator :: "(jsvalue \<Rightarrow> string option) option"

definition component ::
  "(string \<Rightarrow> zod_schema) \<Rightarrow> string \<Rightarrow> string \<Rightarrow> jsvalue
     \<Rightarrow> (jsvalue \<Rightarrow> jsvalue) option \<Rightarrow> ComponentType" where
  "component ioSchema mn lbl initialProps hsc =
     \<lparr>getInstance = \<lparr>methodName = mn, label = lbl, props = initialProps, state = JNull\<rparr>,
      onStateChangeHandler = None,
      returnValue = Pending,
      schema = ioSchema mn,
      handleStateChange = hsc,
      validator = None\<rparr>"

text \<open>\<open>setReturnValue\<close>: parse first (a throw leaves the component as it was), then
  \<open>resolver(parsed)\<close>.\<close>

definition setReturnValue :: "ComponentType \<Rightarrow> jsvalue \<Rightarrow> exn option \<times> ComponentType" where
  "setReturnValue c v =
     (case parse_returns (schema c) v of
        None \<Rightarrow> (Some ZodError, c)
      | Some parsed \<Rightarrow> (None, c\<lparr>returnValue := resolve (returnValue c) parsed\<rparr>))"

text \<open>
  \<open>setState\<close>: parse the state, let \<open>handleStateChange\<close> replace the props, call the
  registered handler. The result is the exception thrown (if any), the component, and the
  handler that was called (if any). The two console messages are not modelled.
\<close>

definition setState ::
  "ComponentType \<Rightarrow> jsvalue \<Rightarrow> exn option \<times> ComponentType \<times> callback option" where
  "setState c newState =
     (case parse_state (schema c) newState of
        None \<Rightarrow> (Some ZodError, c, None)
      | Some parsedState \<Rightarrow>
          (let c1 = (case handleStateChange c of
                       None \<Rightarrow> c
                     | Some h \<Rightarrow> c\<lparr>getInstance := (getInstance c)\<lparr>props := h parsedState\<rparr>\<rparr>)
           in (None, c1, onStateChangeHandler c1)))"

definition setProps :: "ComponentType \<Rightarrow> jsvalue \<Rightarrow> ComponentType \<times> callback option" where
  "setProps c newProps =
     (c\<lparr>getInstance := (getInstance c)\<lparr>props := newProps\<rparr>\<rparr>, onStateChangeHandler c)"

definition onStateChange :: "ComponentType \<Rightarrow> callback \<Rightarrow> ComponentType" where
  "onStateChange c fn = c\<lparr>onStateChangeHandler := Some fn\<rparr>"

record ComponentRenderInfo =
  info_methodName :: string
  info_label :: string
  info_props :: jsvalue

definition getRenderInfo :: "ComponentType \<Rightarrow> ComponentRenderInfo" where
  "getRenderInfo c =
     \<lparr>info_methodName = methodName (getInstance c),
      info_label = label (getInstance c),
      info_props = props (getInstance c)\<rparr>"

text \<open>
  Modelled from the spec: \<open>validator\<close> and \<open>handleValidation\<close> belong to the \<open>IOComponent\<close>
  class the IO client imports, which is not among the sources. The spec gives the
  validator as an optional pure function from the returned value to an error message or
  nothing; \<open>handleValidation\<close> runs it.
\<close>

definition handleValidation :: "ComponentType \<Rightarrow> jsvalue \<Rightarrow> string option" where
  "handleValidation c v = (case validator c of None \<Rightarrow> None | Some f \<Rightarrow> f v)"

text \<open>A sequence of \<open>setReturnValue\<close> calls, exceptions caught by the caller.\<close>

definition setReturnValue_calls :: "ComponentType \<Rightarrow> jsvalue list \<Rightarrow> ComponentType" where
  "setReturnValue_calls c vs = foldl (\<lambda>c' v. snd (setReturnValue c' v)) c vs"

text \<open>Any sequence of calls a holder of the component can make.\<close>

datatype component_call =
    SetState jsvalue
  | SetProps jsvalue
  | SetReturnValue jsvalue
  | OnStateChange callback

fun component_step :: "ComponentType \<Rightarrow> component_call \<Rightarrow> ComponentType" where
  "component_step c (SetState v) = fst (snd (setState c v))"
| "component_step c (SetProps v) = fst (setProps c v)"
| "component_step c (SetReturnValue v) = snd (setReturnValue c v)"
| "component_step c (OnStateChange fn) = onStateChange c fn"

text \<open>The parsed form of the first value of a list that the returns schema accepts.\<close>

fun first_valid :: "zod_schema \<Rightarrow> jsvalue list \<Rightarrow> jsvalue option" where
  "first_valid s [] = None"
| "first_valid s (v # vs) =
     (case parse_returns s v of None \<Rightarrow> first_valid s vs | Some parsed \<Rightarrow> Some parsed)"

section \<open>IO client (\<open>IOClient\<close>)\<close>

text \<open>
  Functions the client calls that are not in the sources: \<open>v4\<close> of the uuid package (its
  n-th result), superjson's \<open>serialize\<close> after \<open>stripUndefined\<close>, superjson's
  \<open>deserialize\<close>, and \<open>JSON.stringify\<close>.
\<close>

record env =
  v4 :: "nat \<Rightarrow> string"
  serialize_props :: "jsvalue \<Rightarrow> jsvalue \<times> jsvalue"
  deserialize :: "jsvalue list \<Rightarrow> jsvalue \<Rightarrow> jsvalue list"
  JSON_stringify :: "jsvalue \<Rightarrow> string option"

record rendered =
  rendered_methodName :: string
  rendered_label :: string
  rendered_props :: jsvalue
  rendered_propsMeta :: jsvalue

text \<open>\<open>T_IO_RENDER_INPUT\<close>; its \<open>kind\<close> is always \<open>RENDER\<close>.\<close>

record render_input =
  packet_id :: string
  packet_inputGroupKey :: string
  toRender :: "rendered list"
  packet_validationErrorMessage :: "string option"

datatype response_kind = RETURN | SET_STATE | CANCELED

text \<open>\<open>T_IO_RESPONSE\<close>; an absent \<open>valuesMeta\<close> reads \<open>JUndefined\<close>.\<close>

record response =
  resp_inputGroupKey :: "string option"
  kind :: response_kind
  resp_values :: "jsvalue list"
  valuesMeta :: jsvalue

text \<open>
  The variables one call of \<open>renderComponents\<close> closes over, and the promise it returned
  (\<open>outcome\<close>).
\<close>

record render_loop =
  inputGroupKey :: string
  isReturned :: bool
  validationErrorMessage :: "string option"
  components :: "ComponentType list"
  groupValidator :: "(jsvalue list \<Rightarrow> string option) option"
  outcome :: "jsvalue list promise"

text \<open>
  The client: \<open>isCanceled\<close>, the installed handler (the loop whose closure it is), the
  packets handed to \<open>send\<close> so far, the number of \<open>v4()\<close> calls made, and the exceptions
  that rejected a promise nobody handles (\<open>unhandled\<close>). Log lines are not modelled. Each
  response is handled to completion before the next one.
\<close>

record IOClient =
  isCanceled :: bool
  onResponseHandler :: "render_loop option"
  sent :: "render_input list"
  uuid_calls :: nat
  unhandled :: "exn list"

definition new_IOClient :: "IOClient" where
  "new_IOClient =
     \<lparr>isCanceled = False, onResponseHandler = None, sent = [], uuid_calls = 0, unhandled = []\<rparr>"

fun truthy :: "jsvalue \<Rightarrow> bool" where
  "truthy JUndefined = False"
| "truthy JNull = False"
| "truthy (JBool b) = b"
| "truthy (JNum n) = (n \<noteq> 0)"
| "truthy (JStr s) = (s \<noteq> [])"
| "truthy (JArr xs) = True"
| "truthy (JObj kvs) = True"

fun truthy_string :: "string option \<Rightarrow> bool" where
  "truthy_string None = False"
| "truthy_string (Some s) = (s \<noteq> [])"

definition pack :: "env \<Rightarrow> ComponentRenderInfo \<Rightarrow> rendered" where
  "pack e info =
     (case serialize_props e (info_props info) of
        (json, meta) \<Rightarrow>
          \<lparr>rendered_methodName = info_methodName info, rendered_label = info_label info,
           rendered_props = json, rendered_propsMeta = meta\<rparr>)"

text \<open>\<open>render()\<close>: build the packet from the components as they are now and send it.\<close>

definition render :: "env \<Rightarrow> render_loop \<Rightarrow> IOClient \<Rightarrow> IOClient" where
  "render e l c =
     c\<lparr>sent := sent c @
          [\<lparr>packet_id = v4 e (uuid_calls c),
            packet_inputGroupKey = inputGroupKey l,
            toRender = map (\<lambda>cm. pack e (getRenderInfo cm)) (components l),
            packet_validationErrorMessage = validationErrorMessage l\<rparr>],
        uuid_calls := Suc (uuid_calls c)\<rparr>"

text \<open>Calling what a component's \<open>onStateChangeHandler && onStateChangeHandler()\<close> called.\<close>

fun run_callback :: "env \<Rightarrow> callback option \<Rightarrow> render_loop \<Rightarrow> IOClient \<Rightarrow> IOClient" where
  "run_callback e None l c = c"
| "run_callback e (Some Render) l c = render e l c"

fun is_fulfilled :: "'a promise \<Rightarrow> bool" where
  "is_fulfilled (Fulfilled v) = True"
| "is_fulfilled Pending = False"
| "is_fulfilled (Rejected e) = False"

fun fulfilled_value :: "jsvalue promise \<Rightarrow> jsvalue" where
  "fulfilled_value (Fulfilled v) = v"
| "fulfilled_value Pending = JUndefined"
| "fulfilled_value (Rejected e) = JUndefined"

text \<open>The tail of \<open>renderComponents\<close>: once every component's \<open>returnValue\<close> is fulfilled,
  \<open>resolve\<close> the returned promise with the values in order.\<close>

definition await_all :: "render_loop \<Rightarrow> render_loop" where
  "await_all l =
     (if list_all (\<lambda>cm. is_fulfilled (returnValue cm)) (components l)
      then l\<lparr>outcome := resolve (outcome l)
                 (map (\<lambda>cm. fulfilled_value (returnValue cm)) (components l))\<rparr>
      else l)"

text \<open>
  \<open>result.values.map(async (v, index) => ...)\<close>: one flag per value, \<open>False\<close> where the
  component at that index has a validator and it returned something other than
  \<open>undefined\<close>. A value past the last component reads \<open>components[index]\<close> as
  \<open>undefined\<close> and throws.
\<close>

fun validities :: "ComponentType list \<Rightarrow> jsvalue list \<Rightarrow> bool list option" where
  "validities cs [] = Some []"
| "validities [] (v # vs) = None"
| "validities (cm # cs) (v # vs) =
     (let ok = (case validator cm of
                  None \<Rightarrow> True
                | Some f \<Rightarrow> handleValidation cm v = None)
      in map_option (\<lambda>oks. ok # oks) (validities cs vs))"

text \<open>\<open>result.values.forEach((v, index) => components[index].setReturnValue(v))\<close>: stops at
  the first throw.\<close>

fun set_return_values ::
  "ComponentType list \<Rightarrow> jsvalue list \<Rightarrow> exn option \<times> ComponentType list" where
  "set_return_values cs [] = (None, cs)"
| "set_return_values [] (v # vs) = (Some TypeError, [])"
| "set_return_values (cm # cs) (v # vs) =
     (case setReturnValue cm v of
        (Some ex, cm') \<Rightarrow> (Some ex, cm' # cs)
      | (None, cm') \<Rightarrow>
          (case set_return_values cs vs of (ex, cs') \<Rightarrow> (ex, cm' # cs')))"

definition finish_RETURN ::
  "render_loop \<Rightarrow> IOClient \<Rightarrow> jsvalue list \<Rightarrow> exn option \<times> render_loop \<times> IOClient" where
  "finish_RETURN l c vs =
     (let l1 = l\<lparr>isReturned := True\<rparr> in
      case set_return_values (components l1) vs of
        (ex, cs') \<Rightarrow> (ex, await_all (l1\<lparr>components := cs'\<rparr>), c))"

definition handle_RETURN ::
  "env \<Rightarrow> render_loop \<Rightarrow> IOClient \<Rightarrow> jsvalue list \<Rightarrow> exn option \<times> render_loop \<times> IOClient" where
  "handle_RETURN e l c vs =
     (case validities (components l) vs of
        None \<Rightarrow> (Some TypeError, l, c)
      | Some oks \<Rightarrow>
          if list_ex (\<lambda>v. \<not> v) oks then (None, l, render e l c)
          else
            (case groupValidator l of
               None \<Rightarrow> finish_RETURN l c vs
             | Some gv \<Rightarrow>
                 (let l1 = l\<lparr>validationErrorMessage := gv vs\<rparr> in
                  if truthy_string (validationErrorMessage l1) then (None, l1, render e l1 c)
                  else finish_RETURN l1 c vs)))"

text \<open>
  The \<open>SET_STATE\<close> loop from index \<open>i\<close> on: where the serialised new state differs from
  the serialised current state, \<open>setState\<close> is awaited, which calls the component's
  handler (a render). A throw ends the loop.
\<close>

fun set_states ::
  "env \<Rightarrow> nat \<Rightarrow> jsvalue list \<Rightarrow> render_loop \<Rightarrow> IOClient
     \<Rightarrow> exn option \<times> render_loop \<times> IOClient" where
  "set_states e i [] l c = (None, l, c)"
| "set_states e i (newState # rest) l c =
     (if i \<ge> length (components l) then (Some TypeError, l, c)
      else
        (let prevState = state (getInstance (components l ! i)) in
         if JSON_stringify e newState \<noteq> JSON_stringify e prevState
         then
           (case setState (components l ! i) newState of
              (Some ex, cm', cb) \<Rightarrow> (Some ex, l, c)
            | (None, cm', cb) \<Rightarrow>
                (let l' = l\<lparr>components := (components l)[i := cm']\<rparr>
                 in set_states e (Suc i) rest l' (run_callback e cb l' c)))
         else set_states e (Suc i) rest l c))"

definition handle_SET_STATE ::
  "env \<Rightarrow> render_loop \<Rightarrow> IOClient \<Rightarrow> jsvalue list \<Rightarrow> exn option \<times> render_loop \<times> IOClient" where
  "handle_SET_STATE e l c vs =
     (case set_states e 0 vs l c of
        (Some ex, l', c') \<Rightarrow> (Some ex, l', c')
      | (None, l', c') \<Rightarrow> (None, l', render e l' c'))"

text \<open>The first guard of the handler: \<open>result.inputGroupKey && result.inputGroupKey !==
  inputGroupKey\<close> (an empty string is falsy).\<close>

definition other_input_group :: "render_loop \<Rightarrow> response \<Rightarrow> bool" where
  "other_input_group l r =
     (case resp_inputGroupKey r of
        None \<Rightarrow> False
      | Some k \<Rightarrow> k \<noteq> [] \<and> k \<noteq> inputGroupKey l)"

text \<open>\<open>result.values\<close> after \<open>if (result.valuesMeta) result.values = superjson.deserialize(...)\<close>.\<close>

definition deserialized_values :: "env \<Rightarrow> response \<Rightarrow> jsvalue list" where
  "deserialized_values e r =
     (if truthy (valuesMeta r) then deserialize e (resp_values r) (valuesMeta r)
      else resp_values r)"

text \<open>The body of the function assigned to \<open>this.onResponseHandler\<close>, for the loop \<open>l\<close>:
  the exception it ends with (if any), and the loop and the client afterwards.\<close>

definition responseHandler ::
  "env \<Rightarrow> render_loop \<Rightarrow> IOClient \<Rightarrow> response \<Rightarrow> exn option \<times> render_loop \<times> IOClient" where
  "responseHandler e l c r =
     (if other_input_group l r then (None, l, c)
      else if isCanceled c \<or> isReturned l then (None, l, c)
      else if kind r = CANCELED
      then (None, l\<lparr>outcome := reject (outcome l) (IOError CANCELED_ERROR)\<rparr>,
            c\<lparr>isCanceled := True\<rparr>)
      else if length (resp_values r) \<noteq> length (components l)
      then (Some (Error ''Mismatch in return array length''), l, c)
      else
        (case kind r of
           RETURN \<Rightarrow> handle_RETURN e l c (deserialized_values e r)
         | SET_STATE \<Rightarrow> handle_SET_STATE e l c (deserialized_values e r)
         | CANCELED \<Rightarrow> (None, l, c)))"

text \<open>
  \<open>onResponse\<close>: call the handler if one is installed. The handler is an async function, so
  an exception inside it rejects the promise the call returns; \<open>onResponse\<close> does not await
  that promise, so its \<open>catch\<close>, which sees only synchronous throws, never runs, and the
  rejection is left unhandled. It is recorded in \<open>unhandled\<close>; what the runtime does with
  an unhandled rejection (by default, end the process) is outside this model, which goes
  on as if the process lived.
\<close>

definition onResponse :: "env \<Rightarrow> IOClient \<Rightarrow> response \<Rightarrow> IOClient" where
  "onResponse e c r =
     (case onResponseHandler c of
        None \<Rightarrow> c
      | Some l \<Rightarrow>
          (case responseHandler e l c r of
             (None, l', c') \<Rightarrow> c'\<lparr>onResponseHandler := Some l'\<rparr>
           | (Some ex, l', c') \<Rightarrow>
               c'\<lparr>onResponseHandler := Some l', unhandled := unhandled c' @ [ex]\<rparr>))"

text \<open>
  \<open>renderComponents\<close>: the throw when the transaction is canceled, or the client after the
  synchronous part of the call: fresh key, handler installed, \<open>render\<close> registered on
  every component, first render sent.
\<close>

definition renderComponents ::
  "env \<Rightarrow> IOClient \<Rightarrow> ComponentType list \<Rightarrow> (jsvalue list \<Rightarrow> string option) option
     \<Rightarrow> exn + IOClient" where
  "renderComponents e c cs gv =
     (if isCanceled c then Inl (IOError TRANSACTION_CLOSED)
      else
        (let l = \<lparr>inputGroupKey = v4 e (uuid_calls c),
                  isReturned = False,
                  validationErrorMessage = None,
                  components = map (\<lambda>cm. onStateChange cm Render) cs,
                  groupValidator = gv,
                  outcome = Pending\<rparr>;
             c1 = render e l (c\<lparr>uuid_calls := Suc (uuid_calls c)\<rparr>)
         in Inr (c1\<lparr>onResponseHandler := Some (await_all l)\<rparr>)))"

text \<open>What happens to a client over time: calls of \<open>renderComponents\<close> (a refused call
  leaves the client as it is) and responses.\<close>

datatype client_event =
    RenderCall "ComponentType list" "(jsvalue list \<Rightarrow> string option) option"
  | Response response

fun client_step :: "env \<Rightarrow> IOClient \<Rightarrow> client_event \<Rightarrow> IOClient" where
  "client_step e c (RenderCall cs gv) =
     (case renderComponents e c cs gv of Inl ex \<Rightarrow> c | Inr c' \<Rightarrow> c')"
| "client_step e c (Response r) = onResponse e c r"

text \<open>A call that hands over new components: at least one, each with its return promise
  pending.\<close>

fun fresh_call :: "client_event \<Rightarrow> bool" where
  "fresh_call (RenderCall cs gv) = (cs \<noteq> [] \<and> list_all (\<lambda>cm. returnValue cm = Pending) cs)"
| "fresh_call (Response r) = True"

definition client_run :: "env \<Rightarrow> IOClient \<Rightarrow> client_event list \<Rightarrow> IOClient" where
  "client_run e c evs = foldl (client_step e) c evs"

text \<open>
  The \<open>SET_STATE\<close> loop as it would read if the current state were the constant \<open>null\<close>:
  the same loop with \<open>prevState\<close> replaced by \<open>JNull\<close>. It is compared with \<open>set_states\<close>
  below.
\<close>

fun set_states_against_null ::
  "env \<Rightarrow> nat \<Rightarrow> jsvalue list \<Rightarrow> render_loop \<Rightarrow> IOClient
     \<Rightarrow> exn option \<times> render_loop \<times> IOClient" where
  "set_states_against_null e i [] l c = (None, l, c)"
| "set_states_against_null e i (newState # rest) l c =
     (if i \<ge> length (components l) then (Some TypeError, l, c)
      else if JSON_stringify e newState \<noteq> JSON_stringify e JNull
      then
        (case setState (components l ! i) newState of
           (Some ex, cm', cb) \<Rightarrow> (Some ex, l, c)
         | (None, cm', cb) \<Rightarrow>
             (let l' = l\<lparr>components := (components l)[i := cm']\<rparr>
              in set_states_against_null e (Suc i) rest l' (run_callback e cb l' c)))
      else set_states_against_null e (Suc i) rest l c)"

text \<open>A call whose components all still have the state they were constructed with.\<close>

fun null_state_call :: "client_event \<Rightarrow> bool" where
  "null_state_call (RenderCall cs gv) = list_all (\<lambda>cm. state (getInstance cm) = JNull) cs"
| "null_state_call (Response r) = True"

text \<open>Three facts about the installed loop that hold from one event to the next.\<close>

definition key_invariant :: "IOClient \<Rightarrow> bool" where
  "key_invariant c =
     (case onResponseHandler c of
        None \<Rightarrow> True
      | Some l \<Rightarrow>
          sent c \<noteq> [] \<and> packet_inputGroupKey (last (sent c)) = inputGroupKey l
          \<and> (groupValidator l = None \<longrightarrow> validationErrorMessage l = None))"

definition pending_invariant :: "IOClient \<Rightarrow> bool" where
  "pending_invariant c =
     (case onResponseHandler c of
        None \<Rightarrow> True
      | Some l \<Rightarrow> isReturned l \<or> isCanceled c \<or> outcome l = Pending)"

definition null_state_invariant :: "IOClient \<Rightarrow> bool" where
  "null_state_invariant c =
     (case onResponseHandler c of
        None \<Rightarrow> True
      | Some l \<Rightarrow> list_all (\<lambda>cm. state (getInstance cm) = JNull) (components l))"

section \<open>Host controller (\<open>createIntervalHost\<close>)\<close>

text \<open>
  \<open>config.actions\<close> is read only for its keys and for whether a name has an action; an
  action itself is opaque: once invoked it may send IO calls, and its promise resolves or
  rejects at some later time.
\<close>

record InternalConfig =
  apiKey :: string
  actions :: "string list"

datatype rpc_call =
    INITIALIZE_HOST string "string list"
  | SEND_IO_CALL string string
  | MARK_TRANSACTION_COMPLETE string

text \<open>
  \<open>inProgressTransactions\<close> maps a transaction id to the \<open>replyHandler\<close> of the caller
  made for it; callers (the results of \<open>createCaller\<close>) are told apart by their number in
  order of creation, and \<open>caller_transaction\<close> gives the transaction id the \<open>send\<close> closure
  of each holds. \<open>invoked\<close> lists the action calls whose promise is still pending
  (caller, transaction id), \<open>rpc_log\<close> the calls made through \<open>serverRpc\<close>, and \<open>replies\<close>
  the values handed to reply handlers. An action is taken to return a promise, as its
  type says, rather than to throw when called.
\<close>

record host =
  inProgressTransactions :: "string \<rightharpoonup> nat"
  callers :: nat
  caller_transaction :: "nat \<rightharpoonup> string"
  invoked :: "(nat \<times> string) list"
  rpc_log :: "rpc_call list"
  replies :: "(nat \<times> string) list"

definition new_host :: "host" where
  "new_host = \<lparr>inProgressTransactions = Map.empty, callers = 0,
               caller_transaction = Map.empty, invoked = [], rpc_log = [], replies = []\<rparr>"

text \<open>The names every ordinary object inherits from \<open>Object.prototype\<close>.\<close>

definition Object_prototype_names :: "string list" where
  "Object_prototype_names =
     [''constructor'', ''__defineGetter__'', ''__defineSetter__'', ''hasOwnProperty'',
      ''__lookupGetter__'', ''__lookupSetter__'', ''isPrototypeOf'', ''propertyIsEnumerable'',
      ''toString'', ''valueOf'', ''__proto__'', ''toLocaleString'']"

text \<open>
  The \<open>START_TRANSACTION\<close> handler: the exception it ends with (if any) and the host
  afterwards. \<open>config.actions[inputs.actionName]\<close> is a property read on an ordinary
  object. For a key of \<open>config.actions\<close> it gives the action: the caller is made, the
  transaction registered, the action called, and the \<open>then\<close> callback hangs on its promise.
  For a name inherited from \<open>Object.prototype\<close> it gives that member, which is truthy, so
  the caller is made and the transaction registered all the same; \<open>fn(io.client).then(...)\<close>
  then throws a \<open>TypeError\<close>, since none of those members, called so, returns a promise
  (most throw, the others return a string, a boolean or the caller's plain client object).
  For any other name it gives \<open>undefined\<close> and the handler returns.
\<close>

definition START_TRANSACTION ::
  "InternalConfig \<Rightarrow> host \<Rightarrow> string \<Rightarrow> string \<Rightarrow> exn option \<times> host" where
  "START_TRANSACTION config h transactionId actionName =
     (if actionName \<in> set (actions config)
      then (None,
            h\<lparr>inProgressTransactions := (inProgressTransactions h)(transactionId \<mapsto> callers h),
              callers := Suc (callers h),
              caller_transaction := (caller_transaction h)(callers h \<mapsto> transactionId),
              invoked := invoked h @ [(callers h, transactionId)]\<rparr>)
      else if actionName \<in> set Object_prototype_names
      then (Some TypeError,
            h\<lparr>inProgressTransactions := (inProgressTransactions h)(transactionId \<mapsto> callers h),
              callers := Suc (callers h),
              caller_transaction := (caller_transaction h)(callers h \<mapsto> transactionId)\<rparr>)
      else (None, h))"

text \<open>The action called with caller \<open>n\<close> resolves: the \<open>then\<close> callback runs.\<close>

definition action_resolves :: "host \<Rightarrow> nat \<Rightarrow> host" where
  "action_resolves h n =
     (case map_of (invoked h) n of
        None \<Rightarrow> h
      | Some transactionId \<Rightarrow>
          h\<lparr>invoked := filter (\<lambda>p. fst p \<noteq> n) (invoked h),
            rpc_log := rpc_log h @ [MARK_TRANSACTION_COMPLETE transactionId]\<rparr>)"

text \<open>The action's promise rejects: nothing hangs on that.\<close>

definition action_rejects :: "host \<Rightarrow> nat \<Rightarrow> host" where
  "action_rejects h n = h\<lparr>invoked := filter (\<lambda>p. fst p \<noteq> n) (invoked h)\<rparr>"

text \<open>The \<open>send\<close> given to \<open>createCaller\<close>, called through caller \<open>n\<close> (if there is one).\<close>

definition caller_send :: "host \<Rightarrow> nat \<Rightarrow> string \<Rightarrow> host" where
  "caller_send h n ioCall =
     (case caller_transaction h n of
        None \<Rightarrow> h
      | Some transactionId \<Rightarrow> h\<lparr>rpc_log := rpc_log h @ [SEND_IO_CALL transactionId ioCall]\<rparr>)"

definition IO_RESPONSE :: "host \<Rightarrow> string \<Rightarrow> string \<Rightarrow> host" where
  "IO_RESPONSE h transactionId v =
     (case inProgressTransactions h transactionId of
        None \<Rightarrow> h
      | Some replyHandler \<Rightarrow> h\<lparr>replies := replies h @ [(replyHandler, v)]\<rparr>)"

text \<open>What happens to a host over time: the two inbound calls, an action's promise
  settling, an action sending an IO call.\<close>

datatype host_event =
    StartTransaction string string
  | IoResponse string string
  | ActionResolves nat
  | ActionRejects nat
  | CallerSend nat string

fun host_step :: "InternalConfig \<Rightarrow> host \<Rightarrow> host_event \<Rightarrow> host" where
  "host_step config h (StartTransaction transactionId actionName) =
     snd (START_TRANSACTION config h transactionId actionName)"
| "host_step config h (IoResponse transactionId v) = IO_RESPONSE h transactionId v"
| "host_step config h (ActionResolves n) = action_resolves h n"
| "host_step config h (ActionRejects n) = action_rejects h n"
| "host_step config h (CallerSend n ioCall) = caller_send h n ioCall"

definition host_run :: "InternalConfig \<Rightarrow> host \<Rightarrow> host_event list \<Rightarrow> host" where
  "host_run config h evs = foldl (host_step config) h evs"

text \<open>Callers are numbered in order of creation, so a pending action's caller has a number
  below the count.\<close>

definition callers_numbered :: "host \<Rightarrow> bool" where
  "callers_numbered h = list_all (\<lambda>p. fst p < callers h) (invoked h)"

text \<open>The events that settle the promise of the action called with caller \<open>n\<close>.\<close>

fun settles :: "nat \<Rightarrow> host_event \<Rightarrow> bool" where
  "settles n (ActionResolves m) = (m = n)"
| "settles n (ActionRejects m) = (m = n)"
| "settles n (StartTransaction transactionId actionName) = False"
| "settles n (IoResponse transactionId v) = False"
| "settles n (CallerSend m ioCall) = False"

text \<open>How a promise that the code awaits turns out.\<close>

datatype 'a settled = Resolves 'a | Rejects exn

text \<open>
  \<open>setup()\<close>, given how \<open>ws.connect()\<close> and the \<open>INITIALIZE_HOST\<close> call turn out (the
  call answers \<open>false\<close>, here \<open>None\<close>, or the dashboard URL): the promise \<open>setup\<close>
  returns and the calls it made. (\<open>setup\<close> is a reserved word here, hence the longer name.)
\<close>

definition setup_connection ::
  "InternalConfig \<Rightarrow> unit settled \<Rightarrow> string option settled \<Rightarrow> unit promise \<times> rpc_call list" where
  "setup_connection config connected loggedIn =
     (case connected of
        Rejects ex \<Rightarrow> (Rejected ex, [])
      | Resolves u \<Rightarrow>
          (case loggedIn of
             Rejects ex \<Rightarrow> (Rejected ex, [INITIALIZE_HOST (apiKey config) (actions config)])
           | Resolves None \<Rightarrow>
               (Rejected (Error ''The provided API key is not valid''),
                [INITIALIZE_HOST (apiKey config) (actions config)])
           | Resolves (Some dashboardUrl) \<Rightarrow>
               (Fulfilled (), [INITIALIZE_HOST (apiKey config) (actions config)])))"

text \<open>
  \<open>createIntervalHost\<close>: it calls \<open>setup()\<close> without awaiting it and returns \<open>true\<close>.
  \<open>created\<close> is the promise the caller holds, \<open>setup_promise\<close> the one nobody holds.
\<close>

record host_creation =
  created :: "bool promise"
  setup_promise :: "unit promise"
  creation_rpc_log :: "rpc_call list"

definition createIntervalHost ::
  "InternalConfig \<Rightarrow> unit settled \<Rightarrow> string option settled \<Rightarrow> host_creation" where
  "createIntervalHost config connected loggedIn =
     (case setup_connection config connected loggedIn of
        (p, calls) \<Rightarrow> \<lparr>created = Fulfilled True, setup_promise = p, creation_rpc_log = calls\<rparr>)"

section \<open>Concrete inputs\<close>

text \<open>
  A text input whose state is always \<open>null\<close> and whose return is a string, and a search
  box whose state is the query string; an environment whose identifiers are \<open>u\<close>, \<open>uu\<close>,
  \<open>uuu\<close>, ..., whose codec is the identity, and whose \<open>JSON_stringify\<close> is right on
  \<open>undefined\<close>, \<open>null\<close> and strings free of characters that need escaping.
\<close>

definition text_schema :: "zod_schema" where
  "text_schema =
     \<lparr>parse_props = Some,
      parse_state = (\<lambda>v. case v of JNull \<Rightarrow> Some JNull | _ \<Rightarrow> None),
      parse_returns = (\<lambda>v. case v of JStr s \<Rightarrow> Some (JStr s) | _ \<Rightarrow> None)\<rparr>"

definition search_schema :: "zod_schema" where
  "search_schema =
     \<lparr>parse_props = Some,
      parse_state = (\<lambda>v. case v of JStr s \<Rightarrow> Some (JStr s) | _ \<Rightarrow> None),
      parse_returns = Some\<rparr>"

definition example_ioSchema :: "string \<Rightarrow> zod_schema" where
  "example_ioSchema mn = (if mn = ''SEARCH'' then search_schema else text_schema)"

definition example_env :: "env" where
  "example_env =
     \<lparr>v4 = (\<lambda>n. replicate (Suc n) CHR ''u''),
      serialize_props = (\<lambda>v. (v, JUndefined)),
      deserialize = (\<lambda>vs meta. vs),
      JSON_stringify = (\<lambda>v. case v of
                            JUndefined \<Rightarrow> None
                          | JNull \<Rightarrow> Some ''null''
                          | JStr s \<Rightarrow> Some (''\"'' @ s @ ''\"'')
                          | _ \<Rightarrow> Some ''{}'')\<rparr>"

definition name_input :: "ComponentType" where
  "name_input = component example_ioSchema ''INPUT_TEXT'' ''name'' JUndefined None"

definition too_short :: "jsvalue \<Rightarrow> string option" where
  "too_short v = (case v of JStr s \<Rightarrow> (if length s < 2 then Some ''too short'' else None)
                  | _ \<Rightarrow> None)"

definition validated_input :: "ComponentType" where
  "validated_input = name_input\<lparr>validator := Some too_short\<rparr>"

definition user_search :: "ComponentType" where
  "user_search =
     component example_ioSchema ''SEARCH'' ''user'' (JArr [])
       (Some (\<lambda>query. JArr [query]))"

text \<open>The client and the loop after the first \<open>renderComponents\<close> call of a transaction.\<close>

definition first_render :: "ComponentType list \<Rightarrow> IOClient" where
  "first_render cs = client_step example_env new_IOClient (RenderCall cs None)"

definition first_loop :: "ComponentType list \<Rightarrow> render_loop" where
  "first_loop cs =
     \<lparr>inputGroupKey = ''u'', isReturned = False, validationErrorMessage = None,
      components = map (\<lambda>cm. onStateChange cm Render) cs, groupValidator = None,
      outcome = Pending\<rparr>"

definition response_to :: "string \<Rightarrow> response_kind \<Rightarrow> jsvalue list \<Rightarrow> response" where
  "response_to k knd vs =
     \<lparr>resp_inputGroupKey = Some k, kind = knd, resp_values = vs, valuesMeta = JUndefined\<rparr>"

definition example_config :: "InternalConfig" where
  "example_config = \<lparr>apiKey = ''key'', actions = [''hello'']\<rparr>"

section \<open>Properties of the reconnect scheduler\<close>

text \<open>The closure's state after \<open>k\<close> timers have fired.\<close>

lemma tick_autoTry:
  "autoTry = \<lparr>triesAtStep = 0, pos = 0, timeout = Some 1000, fn_calls = 0\<rparr>"
  by (simp add: autoTry_def tick_def steps_at_def steps_def)

lemma timer_fires_cycle:
  "timer_fires \<lparr>triesAtStep = k mod 6, pos = (k div 6) mod 3,
                timeout = Some (steps ! ((k div 6) mod 3)), fn_calls = k\<rparr>
   = \<lparr>triesAtStep = Suc k mod 6, pos = (Suc k div 6) mod 3,
      timeout = Some (steps ! ((Suc k div 6) mod 3)), fn_calls = Suc k\<rparr>"
proof (cases "k mod 6 = 5")
  case True
  then have a: "Suc k mod 6 = 0" by presburger
  from True have b: "Suc k div 6 = Suc (k div 6)" by presburger
  have c: "(k div 6) mod 3 < 3" by simp
  have d: "Suc (k div 6) mod 3 = (if (k div 6) mod 3 \<ge> 2 then 0 else (k div 6) mod 3 + 1)"
    by presburger
  show ?thesis
    using True a b c d
    by (simp add: timer_fires_def tick_def steps_at_def steps_def Let_def)
next
  case False
  then have a: "Suc k mod 6 = Suc (k mod 6)" by presburger
  from False have b: "Suc k div 6 = k div 6" by presburger
  have c: "k mod 6 < 6" by simp
  have e: "k mod 6 < 5" using False c by linarith
  have f: "(k div 6) mod 3 < 3" by simp
  show ?thesis
    using a b e f
    by (simp add: timer_fires_def tick_def steps_at_def steps_def Let_def)
qed

lemma delays_from:
  "delays n \<lparr>triesAtStep = j mod 6, pos = (j div 6) mod 3,
             timeout = Some (steps ! ((j div 6) mod 3)), fn_calls = j\<rparr>
   = map (\<lambda>k. steps ! ((k div 6) mod 3)) [j..<j + n]"
proof (induction n arbitrary: j)
  case 0
  show ?case by simp
next
  case (Suc n)
  have "[j..<j + Suc n] = j # [Suc j..<Suc j + n]"
    by (simp add: upt_rec)
  then show ?case
    using Suc.IH [of "Suc j"] by (simp add: timer_fires_cycle del: upt_Suc)
qed

lemma delays_autoTry: "delays n autoTry = map (\<lambda>k. steps ! ((k div 6) mod 3)) [0..<n]"
  using delays_from [of n 0] by (simp add: tick_autoTry steps_def)

lemma delays_20: "delays 20 autoTry
   = replicate 6 1000 @ replicate 6 3000 @ replicate 6 10000 @ replicate 2 1000"
proof -
  have u: "[0..<20] = [0,1,2,3,4,5,6,7,8,9,10,11,12,13,14,15,16,17,18,19::nat]"
    by (simp add: upt_rec)
  have r6: "replicate 6 x = [x,x,x,x,x,x]" for x :: nat
    by (simp add: numeral_eq_Suc)
  have r2: "replicate 2 x = [x,x]" for x :: nat
    by (simp add: numeral_eq_Suc)
  show ?thesis unfolding delays_autoTry u r6 r2 by (simp add: steps_def)
qed

lemma cancel_disarms: "timeout (cancel s) = None \<and> delays n (cancel s) = []"
  by (cases n) (auto simp: cancel_def split: option.splits)

text \<open>
  C5. Started by \<open>autoTry\<close>, the timers fire after 1 s six times, 3 s six times, 10 s six
  times, and 1 s again for the 19th and 20th; in general the k-th delay (from 0) is
  \<open>steps[(k div 6) mod 3]\<close>, the cyclic schedule that moves on after six tries at a step.
  The returned handle \<open>cancel\<close> disarms the timer, after which nothing fires.
\<close>

theorem autoTry_backoff_schedule:
  "delays 20 autoTry
     = replicate 6 1000 @ replicate 6 3000 @ replicate 6 10000 @ replicate 2 1000
   \<and> (\<forall>n. delays n autoTry = map (\<lambda>k. steps ! ((k div 6) mod 3)) [0..<n])
   \<and> (\<forall>s n. timeout (cancel s) = None \<and> delays n (cancel s) = [])"
  using delays_20 delays_autoTry cancel_disarms by blast

section \<open>Properties of the transaction loading state\<close>










lemma start_sends:
  "loading_sent (start t a) = loading_sent t @ [the (loading_state (start t a))]"
  by (simp add: start_def Let_def sendState_def)








section \<open>Properties of the IO component\<close>

lemma setReturnValue_settled:
  "returnValue c \<noteq> Pending \<Longrightarrow> snd (setReturnValue c v) = c"
  by (cases "returnValue c") (simp_all add: setReturnValue_def split: option.splits)

lemma setReturnValue_raises:
  "fst (setReturnValue c v)
     = (case parse_returns (schema c) v of None \<Rightarrow> Some ZodError | Some parsed \<Rightarrow> None)"
  by (simp add: setReturnValue_def split: option.splits)

lemma setReturnValue_schema: "schema (snd (setReturnValue c v)) = schema c"
  by (simp add: setReturnValue_def split: option.splits)

lemma setReturnValue_returnValue:
  "returnValue (snd (setReturnValue c v))
     = (case parse_returns (schema c) v of
          None \<Rightarrow> returnValue c
        | Some parsed \<Rightarrow> resolve (returnValue c) parsed)"
  by (simp add: setReturnValue_def split: option.splits)

lemma setReturnValue_calls_Cons:
  "setReturnValue_calls c (v # vs) = setReturnValue_calls (snd (setReturnValue c v)) vs"
  by (simp add: setReturnValue_calls_def)

lemma setReturnValue_calls_returnValue:
  "returnValue (setReturnValue_calls c vs)
     = (case returnValue c of
          Pending \<Rightarrow> (case first_valid (schema c) vs of
                        None \<Rightarrow> Pending
                      | Some parsed \<Rightarrow> Fulfilled parsed)
        | Fulfilled w \<Rightarrow> Fulfilled w
        | Rejected ex \<Rightarrow> Rejected ex)"
proof (induction vs arbitrary: c)
  case Nil
  show ?case
    by (cases "returnValue c") (simp_all add: setReturnValue_calls_def)
next
  case (Cons v vs)
  show ?case
  proof (cases "parse_returns (schema c) v")
    case None
    then have same: "snd (setReturnValue c v) = c"
      by (simp add: setReturnValue_def)
    show ?thesis
      using Cons.IH [of c] None
      by (cases "returnValue c") (simp_all add: setReturnValue_calls_Cons same)
  next
    case (Some parsed)
    have rv: "returnValue (snd (setReturnValue c v)) = resolve (returnValue c) parsed"
      using Some by (simp add: setReturnValue_returnValue)
    show ?thesis
      using Cons.IH [of "snd (setReturnValue c v)"] Some rv
      by (cases "returnValue c") (simp_all add: setReturnValue_calls_Cons setReturnValue_schema)
  qed
qed

text \<open>
  C3, as amended. Whatever values \<open>setReturnValue\<close> is called with, in whatever number, the
  return promise of a component settles at most once: if it was pending it ends fulfilled
  with the parsed form of the first value the returns schema accepts (pending when there
  is none), and a promise already settled keeps its value. A call on a settled component
  leaves the component as it is, but it still parses its argument first and throws when
  the schema rejects it.
\<close>

theorem setReturnValue_resolves_once:
  "returnValue (setReturnValue_calls c vs)
     = (case returnValue c of
          Pending \<Rightarrow> (case first_valid (schema c) vs of
                        None \<Rightarrow> Pending
                      | Some parsed \<Rightarrow> Fulfilled parsed)
        | Fulfilled w \<Rightarrow> Fulfilled w
        | Rejected ex \<Rightarrow> Rejected ex)
   \<and> (returnValue c \<noteq> Pending \<longrightarrow> snd (setReturnValue c v) = c)
   \<and> fst (setReturnValue c v)
       = (case parse_returns (schema c) v of None \<Rightarrow> Some ZodError | Some parsed \<Rightarrow> None)"
  using setReturnValue_calls_returnValue [of c vs] setReturnValue_settled [of c v]
    setReturnValue_raises [of c v]
  by blast

text \<open>The amended C3 on the text input: a number is refused, \<open>"a"\<close> resolves the promise,
  \<open>"b"\<close> comes too late; and a call on the resolved component changes nothing.\<close>

theorem setReturnValue_resolves_once_witness:
  "returnValue (setReturnValue_calls name_input [JNum 1, JStr ''a'', JStr ''b''])
     = Fulfilled (JStr ''a'')
   \<and> returnValue (snd (setReturnValue name_input (JStr ''a''))) \<noteq> Pending
   \<and> snd (setReturnValue (snd (setReturnValue name_input (JStr ''a''))) (JStr ''b''))
       = snd (setReturnValue name_input (JStr ''a''))
   \<and> fst (setReturnValue (snd (setReturnValue name_input (JStr ''a''))) (JStr ''b'')) = None"
  using setReturnValue_resolves_once
          [of name_input "[JNum 1, JStr ''a'', JStr ''b'']" "JStr ''a''"]
        setReturnValue_resolves_once
          [of "snd (setReturnValue name_input (JStr ''a''))" "[]" "JStr ''b''"]
  by (simp add: name_input_def component_def example_ioSchema_def text_schema_def
        setReturnValue_def)

text \<open>
  C3, as stated, fails in its last part: once the text input has resolved with \<open>"ok"\<close>,
  a further \<open>setReturnValue(7)\<close> is not a no-op, it throws zod's error (the promise keeps
  \<open>"ok"\<close>).
\<close>

theorem setReturnValue_later_call_throws:
  "returnValue (snd (setReturnValue name_input (JStr ''ok''))) = Fulfilled (JStr ''ok'')
   \<and> fst (setReturnValue (snd (setReturnValue name_input (JStr ''ok''))) (JNum 7))
       = Some ZodError"
  by (simp add: name_input_def component_def example_ioSchema_def text_schema_def
        setReturnValue_def)

lemma setState_keeps_state: "state (getInstance (fst (snd (setState c v)))) = state (getInstance c)"
  by (simp add: setState_def Let_def split: option.splits)

lemma setState_keeps_returnValue: "returnValue (fst (snd (setState c v))) = returnValue c"
  by (simp add: setState_def Let_def split: option.splits)

lemma component_step_keeps_state:
  "state (getInstance (component_step c call)) = state (getInstance c)"
  by (cases call)
     (simp_all add: setState_keeps_state setProps_def setReturnValue_def onStateChange_def
        split: option.splits)

lemma component_calls_keep_state:
  "state (getInstance (foldl component_step c calls)) = state (getInstance c)"
  by (induction calls arbitrary: c) (simp_all add: component_step_keeps_state)

section \<open>Properties of the IO client\<close>

lemma render_fields [simp]:
  "isCanceled (render e l c) = isCanceled c"
  "onResponseHandler (render e l c) = onResponseHandler c"
  "uuid_calls (render e l c) = Suc (uuid_calls c)"
  "unhandled (render e l c) = unhandled c"
  by (simp_all add: render_def)

lemma render_sent:
  "sent (render e l c) = sent c @
     [\<lparr>packet_id = v4 e (uuid_calls c), packet_inputGroupKey = inputGroupKey l,
       toRender = map (\<lambda>cm. pack e (getRenderInfo cm)) (components l),
       packet_validationErrorMessage = validationErrorMessage l\<rparr>]"
  by (simp add: render_def)

lemma map_update_same:
  "f y = f (xs ! i) \<Longrightarrow> map f (xs[i := y]) = map f xs"
  by (induction xs arbitrary: i) (auto split: nat.splits)

text \<open>What the \<open>SET_STATE\<close> loop can change: the components in place (never their return
  promise or their state field) and the packets sent, all under the loop's key.\<close>

lemma set_states_shape:
  "\<exists>ex cs' pks.
     set_states e i vs l c
       = (ex, l\<lparr>components := cs'\<rparr>,
          c\<lparr>sent := sent c @ pks, uuid_calls := uuid_calls c + length pks\<rparr>)
     \<and> map returnValue cs' = map returnValue (components l)
     \<and> map (\<lambda>cm. state (getInstance cm)) cs' = map (\<lambda>cm. state (getInstance cm)) (components l)
     \<and> (\<forall>pk \<in> set pks. packet_inputGroupKey pk = inputGroupKey l)"
proof (induction vs arbitrary: i l c)
  case Nil
  have "set_states e i [] l c
          = (None, l\<lparr>components := components l\<rparr>,
             c\<lparr>sent := sent c @ [], uuid_calls := uuid_calls c + length ([] :: render_input list)\<rparr>)"
    by simp
  then show ?case
    by (rule_tac x = None in exI, rule_tac x = "components l" in exI, rule_tac x = "[]" in exI)
       simp
next
  case (Cons newState rest)
  have stop: "\<exists>ex' cs' pks.
     (ex, l, c)
       = (ex', l\<lparr>components := cs'\<rparr>,
          c\<lparr>sent := sent c @ pks, uuid_calls := uuid_calls c + length pks\<rparr>)
     \<and> map returnValue cs' = map returnValue (components l)
     \<and> map (\<lambda>cm. state (getInstance cm)) cs' = map (\<lambda>cm. state (getInstance cm)) (components l)
     \<and> (\<forall>pk \<in> set pks. packet_inputGroupKey pk = inputGroupKey l)"
    for ex :: "exn option"
    by (rule_tac x = ex in exI, rule_tac x = "components l" in exI, rule_tac x = "[]" in exI)
       simp
  show ?case
  proof (cases "i \<ge> length (components l)")
    case True
    then have "set_states e i (newState # rest) l c = (Some TypeError, l, c)" by simp
    then show ?thesis using stop [of "Some TypeError"] by simp
  next
    case inside: False
    show ?thesis
    proof (cases "JSON_stringify e newState
                    \<noteq> JSON_stringify e (state (getInstance (components l ! i)))")
      case False
      then have "set_states e i (newState # rest) l c = set_states e (Suc i) rest l c"
        using inside by (simp add: Let_def)
      then show ?thesis using Cons.IH [of "Suc i" l c] by simp
    next
      case differs: True
      obtain ex1 cm' cb where st: "setState (components l ! i) newState = (ex1, cm', cb)"
        by (cases "setState (components l ! i) newState") auto
      show ?thesis
      proof (cases ex1)
        case (Some ex)
        then have "set_states e i (newState # rest) l c = (Some ex, l, c)"
          using inside differs st by (simp add: Let_def)
        then show ?thesis using stop [of "Some ex"] by simp
      next
        case None
        define l' where "l' = l\<lparr>components := (components l)[i := cm']\<rparr>"
        define c' where "c' = run_callback e cb l' c"
        have step: "set_states e i (newState # rest) l c = set_states e (Suc i) rest l' c'"
          using inside differs st None by (simp add: Let_def l'_def c'_def)
        have cm'_eq: "cm' = fst (snd (setState (components l ! i) newState))"
          using st by simp
        have rv: "map returnValue (components l') = map returnValue (components l)"
          unfolding l'_def cm'_eq
          by (simp add: map_update_same setState_keeps_returnValue)
        have sv: "map (\<lambda>cm. state (getInstance cm)) (components l')
                    = map (\<lambda>cm. state (getInstance cm)) (components l)"
          unfolding l'_def cm'_eq
          by (simp add: map_update_same setState_keeps_state)
        have key: "inputGroupKey l' = inputGroupKey l" by (simp add: l'_def)
        obtain pks0 where c'_shape:
          "c' = c\<lparr>sent := sent c @ pks0, uuid_calls := uuid_calls c + length pks0\<rparr>"
          "\<forall>pk \<in> set pks0. packet_inputGroupKey pk = inputGroupKey l"
        proof (cases cb)
          case None
          then have "c' = c\<lparr>sent := sent c @ [], uuid_calls := uuid_calls c + length ([] :: render_input list)\<rparr>"
            by (simp add: c'_def)
          then show ?thesis using that [of "[]"] by simp
        next
          case (Some f)
          then have "cb = Some Render" by (cases f) simp
          then have "c' = c\<lparr>sent := sent c @
               [\<lparr>packet_id = v4 e (uuid_calls c), packet_inputGroupKey = inputGroupKey l',
                 toRender = map (\<lambda>cm. pack e (getRenderInfo cm)) (components l'),
                 packet_validationErrorMessage = validationErrorMessage l'\<rparr>],
               uuid_calls := uuid_calls c + length [()]\<rparr>"
            by (simp add: c'_def render_def)
          then show ?thesis
            using that [of "[\<lparr>packet_id = v4 e (uuid_calls c), packet_inputGroupKey = inputGroupKey l',
                 toRender = map (\<lambda>cm. pack e (getRenderInfo cm)) (components l'),
                 packet_validationErrorMessage = validationErrorMessage l'\<rparr>]"] key
            by simp
        qed
        from Cons.IH [of "Suc i" l' c'] obtain ex2 cs2 pks2 where ih:
          "set_states e (Suc i) rest l' c'
             = (ex2, l'\<lparr>components := cs2\<rparr>,
                c'\<lparr>sent := sent c' @ pks2, uuid_calls := uuid_calls c' + length pks2\<rparr>)"
          "map returnValue cs2 = map returnValue (components l')"
          "map (\<lambda>cm. state (getInstance cm)) cs2 = map (\<lambda>cm. state (getInstance cm)) (components l')"
          "\<forall>pk \<in> set pks2. packet_inputGroupKey pk = inputGroupKey l'"
          by blast
        have l_eq: "l'\<lparr>components := cs2\<rparr> = l\<lparr>components := cs2\<rparr>"
          by (simp add: l'_def)
        have c_eq: "c'\<lparr>sent := sent c' @ pks2, uuid_calls := uuid_calls c' + length pks2\<rparr>
                    = c\<lparr>sent := sent c @ (pks0 @ pks2),
                         uuid_calls := uuid_calls c + length (pks0 @ pks2)\<rparr>"
          by (simp add: c'_shape(1))
        have "set_states e i (newState # rest) l c
                = (ex2, l\<lparr>components := cs2\<rparr>,
                   c\<lparr>sent := sent c @ (pks0 @ pks2),
                     uuid_calls := uuid_calls c + length (pks0 @ pks2)\<rparr>)"
          using step ih(1) l_eq c_eq by simp
        moreover have "map returnValue cs2 = map returnValue (components l)"
          using ih(2) rv by simp
        moreover have "map (\<lambda>cm. state (getInstance cm)) cs2
                         = map (\<lambda>cm. state (getInstance cm)) (components l)"
          using ih(3) sv by simp
        moreover have "\<forall>pk \<in> set (pks0 @ pks2). packet_inputGroupKey pk = inputGroupKey l"
          using ih(4) c'_shape(2) key by auto
        ultimately show ?thesis
          by (rule_tac x = ex2 in exI, rule_tac x = cs2 in exI, rule_tac x = "pks0 @ pks2" in exI)
             simp
      qed
    qed
  qed
qed

lemma set_states_frame:
  assumes "set_states e i vs l c = (ex, l', c')"
  shows "inputGroupKey l' = inputGroupKey l"
    and "groupValidator l' = groupValidator l"
    and "validationErrorMessage l' = validationErrorMessage l"
    and "isReturned l' = isReturned l"
    and "outcome l' = outcome l"
    and "isCanceled c' = isCanceled c"
    and "\<exists>pks. sent c' = sent c @ pks
           \<and> (\<forall>pk \<in> set pks. packet_inputGroupKey pk = inputGroupKey l)"
    and "map (\<lambda>cm. state (getInstance cm)) (components l')
           = map (\<lambda>cm. state (getInstance cm)) (components l)"
    and "map returnValue (components l') = map returnValue (components l)"
proof -
  from set_states_shape [of e i vs l c] obtain ex0 cs' pks where sh:
    "set_states e i vs l c
       = (ex0, l\<lparr>components := cs'\<rparr>,
          c\<lparr>sent := sent c @ pks, uuid_calls := uuid_calls c + length pks\<rparr>)"
    "map returnValue cs' = map returnValue (components l)"
    "map (\<lambda>cm. state (getInstance cm)) cs' = map (\<lambda>cm. state (getInstance cm)) (components l)"
    "\<forall>pk \<in> set pks. packet_inputGroupKey pk = inputGroupKey l"
    by blast
  from sh(1) assms have l': "l' = l\<lparr>components := cs'\<rparr>"
    and c': "c' = c\<lparr>sent := sent c @ pks, uuid_calls := uuid_calls c + length pks\<rparr>"
    by simp_all
  show "inputGroupKey l' = inputGroupKey l" by (simp add: l')
  show "groupValidator l' = groupValidator l" by (simp add: l')
  show "validationErrorMessage l' = validationErrorMessage l" by (simp add: l')
  show "isReturned l' = isReturned l" by (simp add: l')
  show "outcome l' = outcome l" by (simp add: l')
  show "isCanceled c' = isCanceled c" by (simp add: c')
  show "\<exists>pks. sent c' = sent c @ pks
           \<and> (\<forall>pk \<in> set pks. packet_inputGroupKey pk = inputGroupKey l)"
    using sh(4) by (simp add: c')
  show "map (\<lambda>cm. state (getInstance cm)) (components l')
           = map (\<lambda>cm. state (getInstance cm)) (components l)"
    using sh(3) by (simp add: l')
  show "map returnValue (components l') = map returnValue (components l)"
    using sh(2) by (simp add: l')
qed

lemma finish_RETURN_frame:
  assumes "finish_RETURN l c vs = (ex, l', c')"
  shows "c' = c" and "isReturned l'" and "inputGroupKey l' = inputGroupKey l"
    and "groupValidator l' = groupValidator l"
    and "validationErrorMessage l' = validationErrorMessage l"
  using assms
  by (auto simp: finish_RETURN_def await_all_def Let_def split: prod.splits if_splits)

lemma handle_RETURN_frame:
  assumes "handle_RETURN e l c vs = (ex, l', c')"
  shows "inputGroupKey l' = inputGroupKey l"
    and "groupValidator l' = groupValidator l"
    and "groupValidator l = None \<longrightarrow> validationErrorMessage l' = validationErrorMessage l"
    and "isReturned l' \<or> outcome l' = outcome l"
    and "isCanceled c' = isCanceled c"
    and "\<exists>pks. sent c' = sent c @ pks
           \<and> (\<forall>pk \<in> set pks. packet_inputGroupKey pk = inputGroupKey l)"
proof -
  have all: "inputGroupKey l' = inputGroupKey l
      \<and> groupValidator l' = groupValidator l
      \<and> (groupValidator l = None \<longrightarrow> validationErrorMessage l' = validationErrorMessage l)
      \<and> (isReturned l' \<or> outcome l' = outcome l)
      \<and> isCanceled c' = isCanceled c
      \<and> (\<exists>pks. sent c' = sent c @ pks
           \<and> (\<forall>pk \<in> set pks. packet_inputGroupKey pk = inputGroupKey l))"
  proof (cases "validities (components l) vs")
    case None
    then have "l' = l" "c' = c"
      using assms by (simp_all add: handle_RETURN_def)
    then show ?thesis by simp
  next
    case (Some oks)
    show ?thesis
    proof (cases "list_ex (\<lambda>v. \<not> v) oks")
      case True
      then have "l' = l" "c' = render e l c"
        using assms Some by (auto simp: handle_RETURN_def)
      then show ?thesis by (simp add: render_sent)
    next
      case valid: False
      show ?thesis
      proof (cases "groupValidator l")
        case None
        then have "finish_RETURN l c vs = (ex, l', c')"
          using assms Some valid by (simp add: handle_RETURN_def)
        from finish_RETURN_frame [OF this] show ?thesis by simp
      next
        case (Some gv)
        show ?thesis
        proof (cases "truthy_string (gv vs)")
          case True
          then have "l' = l\<lparr>validationErrorMessage := gv vs\<rparr>"
            "c' = render e (l\<lparr>validationErrorMessage := gv vs\<rparr>) c"
            using assms \<open>validities (components l) vs = Some oks\<close> valid Some
            by (auto simp: handle_RETURN_def Let_def)
          then show ?thesis using Some by (simp add: render_sent)
        next
          case False
          then have "finish_RETURN (l\<lparr>validationErrorMessage := gv vs\<rparr>) c vs = (ex, l', c')"
            using assms \<open>validities (components l) vs = Some oks\<close> valid Some
            by (simp add: handle_RETURN_def Let_def)
          from finish_RETURN_frame [OF this] Some show ?thesis by simp
        qed
      qed
    qed
  qed
  from all show "inputGroupKey l' = inputGroupKey l" by simp
  from all show "groupValidator l' = groupValidator l" by simp
  from all show "groupValidator l = None \<longrightarrow> validationErrorMessage l' = validationErrorMessage l"
    by simp
  from all show "isReturned l' \<or> outcome l' = outcome l" by simp
  from all show "isCanceled c' = isCanceled c" by simp
  from all show "\<exists>pks. sent c' = sent c @ pks
           \<and> (\<forall>pk \<in> set pks. packet_inputGroupKey pk = inputGroupKey l)" by simp
qed

lemma handle_SET_STATE_frame:
  assumes "handle_SET_STATE e l c vs = (ex, l', c')"
  shows "inputGroupKey l' = inputGroupKey l"
    and "groupValidator l' = groupValidator l"
    and "validationErrorMessage l' = validationErrorMessage l"
    and "isReturned l' = isReturned l"
    and "outcome l' = outcome l"
    and "isCanceled c' = isCanceled c"
    and "\<exists>pks. sent c' = sent c @ pks
           \<and> (\<forall>pk \<in> set pks. packet_inputGroupKey pk = inputGroupKey l)"
proof -
  obtain ex1 c1 where ss: "set_states e 0 vs l c = (ex1, l', c1)"
    and c': "c' = c1 \<or> c' = render e l' c1"
    using assms
    by (auto simp: handle_SET_STATE_def split: prod.splits option.splits)
  note fr = set_states_frame [OF ss]
  show "inputGroupKey l' = inputGroupKey l" by (rule fr(1))
  show "groupValidator l' = groupValidator l" by (rule fr(2))
  show "validationErrorMessage l' = validationErrorMessage l" by (rule fr(3))
  show "isReturned l' = isReturned l" by (rule fr(4))
  show "outcome l' = outcome l" by (rule fr(5))
  show "isCanceled c' = isCanceled c" using c' fr(6) by auto
  from fr(7) obtain pks where pks: "sent c1 = sent c @ pks"
    "\<forall>pk \<in> set pks. packet_inputGroupKey pk = inputGroupKey l" by blast
  from c' show "\<exists>pks. sent c' = sent c @ pks
           \<and> (\<forall>pk \<in> set pks. packet_inputGroupKey pk = inputGroupKey l)"
  proof
    assume "c' = c1"
    with pks show ?thesis by blast
  next
    assume r: "c' = render e l' c1"
    have "sent c' = sent c @ (pks @
       [\<lparr>packet_id = v4 e (uuid_calls c1), packet_inputGroupKey = inputGroupKey l',
         toRender = map (\<lambda>cm. pack e (getRenderInfo cm)) (components l'),
         packet_validationErrorMessage = validationErrorMessage l'\<rparr>])"
      by (simp add: r render_sent pks(1))
    moreover have "\<forall>pk \<in> set (pks @
       [\<lparr>packet_id = v4 e (uuid_calls c1), packet_inputGroupKey = inputGroupKey l',
         toRender = map (\<lambda>cm. pack e (getRenderInfo cm)) (components l'),
         packet_validationErrorMessage = validationErrorMessage l'\<rparr>]).
         packet_inputGroupKey pk = inputGroupKey l"
      using pks(2) fr(1) by simp
    ultimately show ?thesis by blast
  qed
qed

text \<open>One response handled by the loop's handler: the key and the group validator stay,
  only the group validator writes the stored message, every packet sent carries the
  loop's key, and the returned promise is touched only on return or cancel.\<close>

lemma responseHandler_frame:
  assumes "responseHandler e l c r = (ex, l', c')"
  shows "inputGroupKey l' = inputGroupKey l"
    and "groupValidator l' = groupValidator l"
    and "groupValidator l = None \<longrightarrow> validationErrorMessage l' = validationErrorMessage l"
    and "isReturned l' \<or> isCanceled c' \<or> outcome l' = outcome l"
    and "isCanceled c \<longrightarrow> isCanceled c'"
    and "\<exists>pks. sent c' = sent c @ pks
           \<and> (\<forall>pk \<in> set pks. packet_inputGroupKey pk = inputGroupKey l)"
proof -
  have all: "inputGroupKey l' = inputGroupKey l
      \<and> groupValidator l' = groupValidator l
      \<and> (groupValidator l = None \<longrightarrow> validationErrorMessage l' = validationErrorMessage l)
      \<and> (isReturned l' \<or> isCanceled c' \<or> outcome l' = outcome l)
      \<and> (isCanceled c \<longrightarrow> isCanceled c')
      \<and> (\<exists>pks. sent c' = sent c @ pks
           \<and> (\<forall>pk \<in> set pks. packet_inputGroupKey pk = inputGroupKey l))"
  proof (cases "other_input_group l r \<or> isCanceled c \<or> isReturned l")
    case True
    then have "l' = l" "c' = c"
      using assms by (auto simp: responseHandler_def split: if_splits)
    then show ?thesis by simp
  next
    case active: False
    show ?thesis
    proof (cases "kind r")
      case CANCELED
      then have "l' = l\<lparr>outcome := reject (outcome l) (IOError CANCELED_ERROR)\<rparr>"
        "c' = c\<lparr>isCanceled := True\<rparr>"
        using assms active by (simp_all add: responseHandler_def)
      then show ?thesis by simp
    next
      case RETURN
      show ?thesis
      proof (cases "length (resp_values r) \<noteq> length (components l)")
        case True
        then have "l' = l" "c' = c"
          using assms active RETURN by (simp_all add: responseHandler_def)
        then show ?thesis by simp
      next
        case False
        then have "handle_RETURN e l c (deserialized_values e r) = (ex, l', c')"
          using assms active RETURN by (simp add: responseHandler_def)
        from handle_RETURN_frame [OF this] show ?thesis by auto
      qed
    next
      case SET_STATE
      show ?thesis
      proof (cases "length (resp_values r) \<noteq> length (components l)")
        case True
        then have "l' = l" "c' = c"
          using assms active SET_STATE by (simp_all add: responseHandler_def)
        then show ?thesis by simp
      next
        case False
        then have "handle_SET_STATE e l c (deserialized_values e r) = (ex, l', c')"
          using assms active SET_STATE by (simp add: responseHandler_def)
        from handle_SET_STATE_frame [OF this] show ?thesis by auto
      qed
    qed
  qed
  from all show "inputGroupKey l' = inputGroupKey l" by simp
  from all show "groupValidator l' = groupValidator l" by simp
  from all show "groupValidator l = None \<longrightarrow> validationErrorMessage l' = validationErrorMessage l"
    by simp
  from all show "isReturned l' \<or> isCanceled c' \<or> outcome l' = outcome l" by simp
  from all show "isCanceled c \<longrightarrow> isCanceled c'" by simp
  from all show "\<exists>pks. sent c' = sent c @ pks
           \<and> (\<forall>pk \<in> set pks. packet_inputGroupKey pk = inputGroupKey l)" by simp
qed

lemma handler_unchanged_update:
  "onResponseHandler c = Some l \<Longrightarrow> c\<lparr>onResponseHandler := Some l\<rparr> = c"
  by (cases c) simp

lemma onResponse_split:
  assumes "onResponseHandler c = Some l"
  obtains ex l' c' where "responseHandler e l c r = (ex, l', c')"
    and "onResponse e c r
           = c'\<lparr>onResponseHandler := Some l',
                unhandled := unhandled c' @ (case ex of None \<Rightarrow> [] | Some x \<Rightarrow> [x])\<rparr>"
proof -
  obtain ex l' c' where h: "responseHandler e l c r = (ex, l', c')"
    by (cases "responseHandler e l c r") auto
  then have "onResponse e c r
           = c'\<lparr>onResponseHandler := Some l',
                unhandled := unhandled c' @ (case ex of None \<Rightarrow> [] | Some x \<Rightarrow> [x])\<rparr>"
    using assms by (cases ex) (simp_all add: onResponse_def)
  with h show ?thesis using that by blast
qed

lemma onResponse_no_handler: "onResponseHandler c = None \<Longrightarrow> onResponse e c r = c"
  by (simp add: onResponse_def)

lemma await_all_unfulfilled:
  "cs \<noteq> [] \<Longrightarrow> list_all (\<lambda>cm. returnValue cm = Pending) cs \<Longrightarrow>
     await_all (l\<lparr>components := map (\<lambda>cm. onStateChange cm Render) cs\<rparr>)
       = l\<lparr>components := map (\<lambda>cm. onStateChange cm Render) cs\<rparr>"
  by (cases cs) (simp_all add: await_all_def onStateChange_def)

lemma await_all_fields [simp]:
  "inputGroupKey (await_all l) = inputGroupKey l"
  "groupValidator (await_all l) = groupValidator l"
  "validationErrorMessage (await_all l) = validationErrorMessage l"
  "isReturned (await_all l) = isReturned l"
  "components (await_all l) = components l"
  by (simp_all add: await_all_def)

lemma renderComponents_accepts:
  assumes "\<not> isCanceled c"
  shows "\<exists>l. renderComponents e c cs gv
          = Inr ((render e l (c\<lparr>uuid_calls := Suc (uuid_calls c)\<rparr>))
                  \<lparr>onResponseHandler := Some (await_all l)\<rparr>)
        \<and> l = \<lparr>inputGroupKey = v4 e (uuid_calls c), isReturned = False,
                validationErrorMessage = None,
                components = map (\<lambda>cm. onStateChange cm Render) cs,
                groupValidator = gv, outcome = Pending\<rparr>"
  using assms by (simp add: renderComponents_def Let_def)

lemma renderComponents_refuses:
  "isCanceled c \<Longrightarrow> renderComponents e c cs gv = Inl (IOError TRANSACTION_CLOSED)"
  by (simp add: renderComponents_def)

subsection \<open>The key of the packets and the stored message\<close>

lemma key_invariant_new: "key_invariant new_IOClient"
  by (simp add: key_invariant_def new_IOClient_def)

lemma key_invariant_step:
  assumes "key_invariant c"
  shows "key_invariant (client_step e c ev)"
proof (cases ev)
  case (RenderCall cs gv)
  show ?thesis
  proof (cases "isCanceled c")
    case True
    then show ?thesis
      using assms RenderCall by (simp add: renderComponents_refuses)
  next
    case False
    from renderComponents_accepts [OF False, of e cs gv] show ?thesis
      using RenderCall
      by (auto simp: key_invariant_def render_sent)
  qed
next
  case (Response r)
  show ?thesis
  proof (cases "onResponseHandler c")
    case None
    then show ?thesis using assms Response by (simp add: onResponse_no_handler)
  next
    case (Some l)
    from onResponse_split [OF Some, of e r] obtain ex l' c' where
      h: "responseHandler e l c r = (ex, l', c')"
      and o: "onResponse e c r
           = c'\<lparr>onResponseHandler := Some l',
                unhandled := unhandled c' @ (case ex of None \<Rightarrow> [] | Some x \<Rightarrow> [x])\<rparr>"
      by blast
    note fr = responseHandler_frame [OF h]
    from fr(6) obtain pks where pks: "sent c' = sent c @ pks"
      "\<forall>pk \<in> set pks. packet_inputGroupKey pk = inputGroupKey l" by blast
    from assms Some have old: "sent c \<noteq> []"
      "packet_inputGroupKey (last (sent c)) = inputGroupKey l"
      "groupValidator l = None \<longrightarrow> validationErrorMessage l = None"
      by (simp_all add: key_invariant_def)
    have ne: "sent c' \<noteq> []" using pks(1) old(1) by simp
    have lastk: "packet_inputGroupKey (last (sent c')) = inputGroupKey l"
    proof (cases "pks = []")
      case True
      then show ?thesis using pks(1) old(2) by simp
    next
      case False
      then have "last (sent c') = last pks" using pks(1) by simp
      moreover have "last pks \<in> set pks" using False by simp
      ultimately show ?thesis using pks(2) by simp
    qed
    have msg: "groupValidator l' = None \<longrightarrow> validationErrorMessage l' = None"
      using fr(2) fr(3) old(3) by simp
    show ?thesis
      using Response o ne lastk msg fr(1) by (simp add: key_invariant_def)
  qed
qed

lemma key_invariant_run: "key_invariant c \<Longrightarrow> key_invariant (client_run e c evs)"
  unfolding client_run_def
  by (induction evs arbitrary: c) (simp_all add: key_invariant_step)

subsection \<open>The returned promise while the loop is active\<close>

lemma pending_invariant_new: "pending_invariant new_IOClient"
  by (simp add: pending_invariant_def new_IOClient_def)

lemma pending_invariant_step:
  assumes "pending_invariant c" and "fresh_call ev"
  shows "pending_invariant (client_step e c ev)"
proof (cases ev)
  case (RenderCall cs gv)
  show ?thesis
  proof (cases "isCanceled c")
    case True
    then show ?thesis
      using assms RenderCall by (simp add: renderComponents_refuses)
  next
    case False
    define l where "l = \<lparr>inputGroupKey = v4 e (uuid_calls c), isReturned = False,
                validationErrorMessage = None,
                components = ([] :: ComponentType list),
                groupValidator = gv, outcome = Pending\<rparr>"
    have aw: "await_all (l\<lparr>components := map (\<lambda>cm. onStateChange cm Render) cs\<rparr>)
                = l\<lparr>components := map (\<lambda>cm. onStateChange cm Render) cs\<rparr>"
      using assms(2) RenderCall by (simp add: await_all_unfulfilled)
    have l_eq: "l\<lparr>components := map (\<lambda>cm. onStateChange cm Render) cs\<rparr>
            = \<lparr>inputGroupKey = v4 e (uuid_calls c), isReturned = False,
                validationErrorMessage = None,
                components = map (\<lambda>cm. onStateChange cm Render) cs,
                groupValidator = gv, outcome = Pending\<rparr>"
      by (simp add: l_def)
    from renderComponents_accepts [OF False, of e cs gv] show ?thesis
      using RenderCall aw unfolding l_eq
      by (auto simp: pending_invariant_def)
  qed
next
  case (Response r)
  show ?thesis
  proof (cases "onResponseHandler c")
    case None
    then show ?thesis using assms Response by (simp add: onResponse_no_handler)
  next
    case (Some l)
    from onResponse_split [OF Some, of e r] obtain ex l' c' where
      h: "responseHandler e l c r = (ex, l', c')"
      and o: "onResponse e c r
           = c'\<lparr>onResponseHandler := Some l',
                unhandled := unhandled c' @ (case ex of None \<Rightarrow> [] | Some x \<Rightarrow> [x])\<rparr>"
      by blast
    note fr = responseHandler_frame [OF h]
    from assms(1) Some have old: "isReturned l \<or> isCanceled c \<or> outcome l = Pending"
      by (simp add: pending_invariant_def)
    have "isReturned l' \<or> isCanceled c' \<or> outcome l' = Pending"
    proof (cases "isReturned l \<or> isCanceled c")
      case True
      then have "l' = l" "c' = c"
        using h by (auto simp: responseHandler_def split: if_splits)
      then show ?thesis using old by simp
    next
      case False
      then have "outcome l = Pending" using old by simp
      then show ?thesis using fr(4) by auto
    qed
    then show ?thesis
      using Response o by (simp add: pending_invariant_def)
  qed
qed

lemma pending_invariant_run:
  "pending_invariant c \<Longrightarrow> list_all fresh_call evs \<Longrightarrow> pending_invariant (client_run e c evs)"
  unfolding client_run_def
  by (induction evs arbitrary: c) (simp_all add: pending_invariant_step)

subsection \<open>A canceled client\<close>

lemma canceled_step: "isCanceled c \<Longrightarrow> client_step e c ev = c"
proof (cases ev)
  case (RenderCall cs gv)
  assume "isCanceled c"
  then show ?thesis using RenderCall by (simp add: renderComponents_refuses)
next
  case (Response r)
  assume canceled: "isCanceled c"
  show ?thesis
  proof (cases "onResponseHandler c")
    case None
    then show ?thesis using Response by (simp add: onResponse_no_handler)
  next
    case (Some l)
    have "responseHandler e l c r = (None, l, c)"
      using canceled by (simp add: responseHandler_def)
    then show ?thesis
      using Response Some by (simp add: onResponse_def handler_unchanged_update)
  qed
qed

lemma canceled_run: "isCanceled c \<Longrightarrow> client_run e c evs = c"
  unfolding client_run_def
  by (induction evs) (simp_all add: canceled_step)

subsection \<open>The first render of a transaction, concretely\<close>

lemma first_render_fresh:
  assumes "cs \<noteq> []" and "list_all (\<lambda>cm. returnValue cm = Pending) cs"
  shows "first_render cs
     = \<lparr>isCanceled = False, onResponseHandler = Some (first_loop cs),
        sent = [\<lparr>packet_id = ''uu'', packet_inputGroupKey = ''u'',
                 toRender = map (\<lambda>cm. pack example_env (getRenderInfo (onStateChange cm Render))) cs,
                 packet_validationErrorMessage = None\<rparr>],
        uuid_calls = 2, unhandled = []\<rparr>"
proof -
  have aw: "await_all (first_loop cs) = first_loop cs"
    using await_all_unfulfilled [OF assms, of "first_loop cs"]
    by (simp add: first_loop_def)
  have l: "\<lparr>inputGroupKey = v4 example_env (uuid_calls new_IOClient), isReturned = False,
             validationErrorMessage = None,
             components = map (\<lambda>cm. onStateChange cm Render) cs,
             groupValidator = None, outcome = Pending\<rparr> = first_loop cs"
    by (simp add: first_loop_def example_env_def new_IOClient_def)
  show ?thesis
    unfolding first_render_def client_step.simps renderComponents_def Let_def l aw
    by (simp add: new_IOClient_def render_def first_loop_def example_env_def comp_def)
qed

lemma name_input_fresh:
  "[name_input] \<noteq> [] \<and> list_all (\<lambda>cm. returnValue cm = Pending) [name_input]"
  by (simp add: name_input_def component_def)

lemma validated_input_fresh:
  "[validated_input] \<noteq> [] \<and> list_all (\<lambda>cm. returnValue cm = Pending) [validated_input]"
  by (simp add: validated_input_def name_input_def component_def)

lemmas first_render_name_input =
  first_render_fresh [OF conjunct1 [OF name_input_fresh] conjunct2 [OF name_input_fresh]]

lemmas first_render_validated_input =
  first_render_fresh [OF conjunct1 [OF validated_input_fresh] conjunct2 [OF validated_input_fresh]]

subsection \<open>Responses for another input group\<close>

lemma empty_key_is_no_key:
  "responseHandler e l c (r\<lparr>resp_inputGroupKey := Some []\<rparr>)
     = responseHandler e l c (r\<lparr>resp_inputGroupKey := None\<rparr>)"
  by (cases "kind r")
     (simp_all add: responseHandler_def other_input_group_def deserialized_values_def)

text \<open>
  C4, as amended. A response that carries a key that is a non-empty string different from
  the key of the loop whose handler is installed is dropped by the first guard: the
  handler ends without an exception and the loop and the client are exactly as before, so
  no component's state, props or return value changes, nothing is sent, and the promise
  \<open>renderComponents\<close> returned is not settled. The guard is a truthiness test, so the empty
  string is no key: a response whose key is the empty string is handled exactly as the
  same response without a key.
\<close>

theorem stale_response_discarded:
  assumes "onResponseHandler c = Some l"
    and "resp_inputGroupKey r = Some k" and "k \<noteq> []" and "k \<noteq> inputGroupKey l"
  shows "responseHandler e l c r = (None, l, c) \<and> onResponse e c r = c
       \<and> responseHandler e l c (r\<lparr>resp_inputGroupKey := Some []\<rparr>)
           = responseHandler e l c (r\<lparr>resp_inputGroupKey := None\<rparr>)"
proof -
  have "responseHandler e l c r = (None, l, c)"
    using assms by (simp add: responseHandler_def other_input_group_def)
  moreover from this have "onResponse e c r = c"
    using assms(1) by (simp add: onResponse_def handler_unchanged_update)
  ultimately show ?thesis
    using empty_key_is_no_key [of e l c r] by simp
qed

text \<open>The amended C4 on the first render of a text input (key \<open>u\<close>) and a late \<open>RETURN\<close>
  for key \<open>zz\<close>.\<close>

theorem stale_response_discarded_witness:
  "onResponseHandler (first_render [name_input]) = Some (first_loop [name_input])
   \<and> resp_inputGroupKey (response_to ''zz'' RETURN [JStr ''late'']) = Some ''zz''
   \<and> inputGroupKey (first_loop [name_input]) = ''u''
   \<and> onResponse example_env (first_render [name_input]) (response_to ''zz'' RETURN [JStr ''late''])
       = first_render [name_input]"
  using stale_response_discarded
          [of "first_render [name_input]" "first_loop [name_input]"
              "response_to ''zz'' RETURN [JStr ''late'']" "''zz''" example_env]
  by (simp add: first_render_name_input first_loop_def response_to_def)

text \<open>
  C4, as stated, fails for the empty key: a \<open>RETURN\<close> whose \<open>inputGroupKey\<close> is the empty
  string differs from the key \<open>u\<close> of the active loop, and it is not discarded: it resolves
  the render of the text input with its value.
\<close>

theorem empty_key_response_is_handled:
  "resp_inputGroupKey (response_to [] RETURN [JStr ''v'']) = Some []
   \<and> inputGroupKey (first_loop [name_input]) = ''u''
   \<and> map_option outcome
       (onResponseHandler
          (onResponse example_env (first_render [name_input]) (response_to [] RETURN [JStr ''v''])))
     = Some (Fulfilled [JStr ''v''])"
  unfolding first_render_name_input
  by (simp add: first_loop_def response_to_def other_input_group_def
        onResponse_def responseHandler_def deserialized_values_def
        handle_RETURN_def finish_RETURN_def await_all_def setReturnValue_def
        handleValidation_def onStateChange_def name_input_def component_def
        example_ioSchema_def text_schema_def Let_def)

subsection \<open>A response of the wrong length\<close>

text \<open>
  C6, as amended. When the active loop handles a response that is not \<open>CANCELED\<close> and
  whose \<open>values\<close> array is not as long as the batch, the handler throws
  \<open>Error('Mismatch in return array length')\<close> before it looks at any value. It has not
  rejected the render's promise nor set \<open>isCanceled\<close>, no component has got a state update
  or a return value (the loop is as it was), and nothing has been sent.
\<close>

theorem length_mismatch_throws:
  assumes "onResponseHandler c = Some l"
    and "\<not> other_input_group l r" and "\<not> isCanceled c" and "\<not> isReturned l"
    and "kind r \<noteq> CANCELED" and "length (resp_values r) \<noteq> length (components l)"
  shows "responseHandler e l c r = (Some (Error ''Mismatch in return array length''), l, c)
       \<and> onResponseHandler (onResponse e c r) = Some l
       \<and> sent (onResponse e c r) = sent c
       \<and> isCanceled (onResponse e c r) = isCanceled c"
  using assms
  by (simp add: onResponse_def responseHandler_def)

text \<open>The amended C6 on the first render of a text input and a \<open>RETURN\<close> with two values.\<close>

theorem length_mismatch_throws_witness:
  "onResponseHandler (first_render [name_input]) = Some (first_loop [name_input])
   \<and> \<not> other_input_group (first_loop [name_input]) (response_to ''u'' RETURN [JStr ''a'', JStr ''b''])
   \<and> \<not> isCanceled (first_render [name_input])
   \<and> \<not> isReturned (first_loop [name_input])
   \<and> kind (response_to ''u'' RETURN [JStr ''a'', JStr ''b'']) \<noteq> CANCELED
   \<and> length (resp_values (response_to ''u'' RETURN [JStr ''a'', JStr ''b'']))
       \<noteq> length (components (first_loop [name_input]))
   \<and> responseHandler example_env (first_loop [name_input]) (first_render [name_input])
         (response_to ''u'' RETURN [JStr ''a'', JStr ''b''])
       = (Some (Error ''Mismatch in return array length''), first_loop [name_input],
          first_render [name_input])
   \<and> onResponseHandler
        (onResponse example_env (first_render [name_input])
           (response_to ''u'' RETURN [JStr ''a'', JStr ''b'']))
       = Some (first_loop [name_input])
   \<and> length (sent (onResponse example_env (first_render [name_input])
                     (response_to ''u'' RETURN [JStr ''a'', JStr ''b'']))) = 1"
  using length_mismatch_throws
          [of "first_render [name_input]" "first_loop [name_input]"
              "response_to ''u'' RETURN [JStr ''a'', JStr ''b'']" example_env]
  by (simp add: first_render_name_input first_loop_def response_to_def other_input_group_def)

text \<open>
  C6, as stated, fails: on a \<open>RETURN\<close> with two values for a batch of one text input the
  handler ends by throwing, and it has not rejected the render: the render's promise is
  still pending and \<open>isCanceled\<close> is not set.
\<close>

theorem length_mismatch_does_not_reject:
  "fst (responseHandler example_env (first_loop [name_input]) (first_render [name_input])
          (response_to ''u'' RETURN [JStr ''a'', JStr ''b'']))
     = Some (Error ''Mismatch in return array length'')
   \<and> outcome
       (fst (snd (responseHandler example_env (first_loop [name_input]) (first_render [name_input])
                    (response_to ''u'' RETURN [JStr ''a'', JStr ''b'']))))
     = Pending
   \<and> \<not> isCanceled
        (snd (snd (responseHandler example_env (first_loop [name_input]) (first_render [name_input])
                     (response_to ''u'' RETURN [JStr ''a'', JStr ''b'']))))"
  unfolding first_render_name_input
  by (simp add: first_loop_def response_to_def other_input_group_def responseHandler_def)

subsection \<open>A component validator that returns a message\<close>

lemma validities_total:
  "length vs = length cs \<Longrightarrow> \<exists>oks. validities cs vs = Some oks"
proof (induction cs vs rule: validities.induct)
  case (1 cs)
  show ?case by simp
next
  case (2 v vs)
  then show ?case by simp
next
  case (3 cm cs v vs)
  then show ?case by (auto simp: Let_def)
qed

lemma validities_finds_message:
  assumes "length vs = length cs" and "i < length cs"
    and "validator (cs ! i) = Some f" and "f (vs ! i) = Some msg"
  shows "\<exists>oks. validities cs vs = Some oks \<and> list_ex (\<lambda>v. \<not> v) oks"
  using assms
proof (induction cs vs arbitrary: i rule: validities.induct)
  case (1 cs)
  then show ?case by simp
next
  case (2 v vs)
  then show ?case by simp
next
  case (3 cm cs v vs)
  from "3.prems"(1) have len: "length vs = length cs" by simp
  from validities_total [OF len] obtain oks where oks: "validities cs vs = Some oks" by blast
  show ?case
  proof (cases i)
    case 0
    then have "validator cm = Some f" "f v = Some msg" using "3.prems" by simp_all
    then show ?thesis using oks by (simp add: Let_def handleValidation_def)
  next
    case (Suc j)
    then have "j < length cs" "validator (cs ! j) = Some f" "f (vs ! j) = Some msg"
      using "3.prems" by simp_all
    from "3.IH" [OF refl len this] obtain oks' where
      "validities cs vs = Some oks'" "list_ex (\<lambda>v. \<not> v) oks'" by blast
    then show ?thesis by (simp add: Let_def)
  qed
qed

text \<open>
  C1, as amended. Take a client in any state it can reach, and a \<open>RETURN\<close> response that
  the active loop handles (right key or none, not canceled, not returned, as many values
  as components, before and after deserialisation) on which the validator of some
  component returns a message. Then the client re-renders: exactly one more packet is
  sent, with the loop's \<open>inputGroupKey\<close>, which is the key of the packet sent before it, and
  the loop itself is unchanged (no component gets a return value). The packet's
  \<open>validationErrorMessage\<close> is the loop's stored message as it was, not the component
  validator's message: only a group validator writes the stored message, so without one
  the field is \<open>undefined\<close>.
\<close>

theorem component_validator_rerenders:
  assumes "c = client_run e new_IOClient evs"
    and "onResponseHandler c = Some l"
    and "\<not> other_input_group l r" and "\<not> isCanceled c" and "\<not> isReturned l"
    and "kind r = RETURN"
    and "length (resp_values r) = length (components l)"
    and "length (deserialized_values e r) = length (components l)"
    and "i < length (components l)"
    and "validator (components l ! i) = Some f"
    and "f (deserialized_values e r ! i) = Some msg"
  shows "sent (onResponse e c r)
       = sent c @
           [\<lparr>packet_id = v4 e (uuid_calls c),
             packet_inputGroupKey = inputGroupKey l,
             toRender = map (\<lambda>cm. pack e (getRenderInfo cm)) (components l),
             packet_validationErrorMessage = validationErrorMessage l\<rparr>]
     \<and> packet_inputGroupKey (last (sent (onResponse e c r)))
         = packet_inputGroupKey (last (sent c))
     \<and> (groupValidator l = None \<longrightarrow>
          packet_validationErrorMessage (last (sent (onResponse e c r))) = None)
     \<and> onResponseHandler (onResponse e c r) = Some l"
proof -
  from validities_finds_message [OF assms(8) assms(9) assms(10) assms(11)]
  obtain oks where oks: "validities (components l) (deserialized_values e r) = Some oks"
    "list_ex (\<lambda>v. \<not> v) oks" by blast
  have "handle_RETURN e l c (deserialized_values e r) = (None, l, render e l c)"
    using oks by (simp add: handle_RETURN_def)
  then have h: "responseHandler e l c r = (None, l, render e l c)"
    using assms(3-7) by (simp add: responseHandler_def)
  then have o: "onResponse e c r = (render e l c)\<lparr>onResponseHandler := Some l\<rparr>"
    using assms(2) by (simp add: onResponse_def)
  have "key_invariant c"
    unfolding assms(1) by (rule key_invariant_run [OF key_invariant_new])
  then have inv: "packet_inputGroupKey (last (sent c)) = inputGroupKey l"
    "groupValidator l = None \<longrightarrow> validationErrorMessage l = None"
    using assms(2) by (simp_all add: key_invariant_def)
  show ?thesis
    using inv by (simp add: o render_sent)
qed

text \<open>The amended C1 on a text input with the validator \<open>too_short\<close> and the answer
  \<open>"x"\<close>.\<close>

theorem component_validator_rerenders_witness:
  "first_render [validated_input]
     = client_run example_env new_IOClient [RenderCall [validated_input] None]
   \<and> onResponseHandler (first_render [validated_input]) = Some (first_loop [validated_input])
   \<and> \<not> other_input_group (first_loop [validated_input]) (response_to ''u'' RETURN [JStr ''x''])
   \<and> \<not> isCanceled (first_render [validated_input])
   \<and> \<not> isReturned (first_loop [validated_input])
   \<and> validator (components (first_loop [validated_input]) ! 0) = Some too_short
   \<and> too_short (deserialized_values example_env (response_to ''u'' RETURN [JStr ''x'']) ! 0)
       = Some ''too short''
   \<and> groupValidator (first_loop [validated_input]) = None
   \<and> length (sent (onResponse example_env (first_render [validated_input])
                     (response_to ''u'' RETURN [JStr ''x'']))) = 2
   \<and> packet_inputGroupKey
       (last (sent (onResponse example_env (first_render [validated_input])
                      (response_to ''u'' RETURN [JStr ''x''])))) = ''u''
   \<and> packet_validationErrorMessage
       (last (sent (onResponse example_env (first_render [validated_input])
                      (response_to ''u'' RETURN [JStr ''x''])))) = None
   \<and> onResponseHandler (onResponse example_env (first_render [validated_input])
                          (response_to ''u'' RETURN [JStr ''x'']))
       = Some (first_loop [validated_input])"
proof -
  have run: "first_render [validated_input]
     = client_run example_env new_IOClient [RenderCall [validated_input] None]"
    by (simp add: first_render_def client_run_def)
  have facts:
    "onResponseHandler (first_render [validated_input]) = Some (first_loop [validated_input])"
    "\<not> other_input_group (first_loop [validated_input]) (response_to ''u'' RETURN [JStr ''x''])"
    "\<not> isCanceled (first_render [validated_input])"
    "\<not> isReturned (first_loop [validated_input])"
    "kind (response_to ''u'' RETURN [JStr ''x'']) = RETURN"
    "length (resp_values (response_to ''u'' RETURN [JStr ''x'']))
       = length (components (first_loop [validated_input]))"
    "length (deserialized_values example_env (response_to ''u'' RETURN [JStr ''x'']))
       = length (components (first_loop [validated_input]))"
    "0 < length (components (first_loop [validated_input]))"
    "validator (components (first_loop [validated_input]) ! 0) = Some too_short"
    "too_short (deserialized_values example_env (response_to ''u'' RETURN [JStr ''x'']) ! 0)
       = Some ''too short''"
    "groupValidator (first_loop [validated_input]) = None"
    "sent (first_render [validated_input]) \<noteq> []"
    "length (sent (first_render [validated_input])) = 1"
    "packet_inputGroupKey (last (sent (first_render [validated_input]))) = ''u''"
    unfolding first_render_validated_input
    by (simp_all add: first_loop_def response_to_def other_input_group_def
          deserialized_values_def validated_input_def onStateChange_def too_short_def)
  note concl = component_validator_rerenders [OF run facts(1-10)]
  show ?thesis
    apply (rule conjI [OF run])
    using concl facts apply (simp add: first_loop_def)
    done
qed

text \<open>
  C1, as stated, fails in what the packet carries: the validator of the text input returns
  \<open>"too short"\<close> for \<open>"x"\<close>, the client re-renders under the same key \<open>u\<close>, and the
  \<open>validationErrorMessage\<close> of the new packet is \<open>undefined\<close>.
\<close>

theorem component_validator_message_not_sent:
  "handleValidation validated_input (JStr ''x'') = Some ''too short''
   \<and> map packet_inputGroupKey
       (sent (onResponse example_env (first_render [validated_input])
                (response_to ''u'' RETURN [JStr ''x''])))
     = [''u'', ''u'']
   \<and> map packet_validationErrorMessage
       (sent (onResponse example_env (first_render [validated_input])
                (response_to ''u'' RETURN [JStr ''x''])))
     = [None, None]"
  unfolding first_render_validated_input
  by (simp add: first_loop_def response_to_def other_input_group_def
        onResponse_def responseHandler_def deserialized_values_def
        handle_RETURN_def render_def handleValidation_def onStateChange_def
        validated_input_def too_short_def Let_def)

subsection \<open>Cancellation\<close>

text \<open>
  C2. Take a client in any state it can reach when every \<open>renderComponents\<close> call was
  given new components, and a \<open>CANCELED\<close> response that the active loop handles (right key
  or none, not yet canceled, not yet returned). Afterwards \<open>isCanceled\<close> is set and the
  promise of the current render is rejected with \<open>IOError('CANCELED')\<close>; nothing was sent
  for it. From then on, whatever responses and calls follow, the client stays as it is
  and every \<open>renderComponents\<close> call throws \<open>IOError('TRANSACTION_CLOSED')\<close> at once,
  before anything is sent.
\<close>

theorem cancel_is_sticky:
  assumes "list_all fresh_call evs"
    and "c = client_run e new_IOClient evs"
    and "onResponseHandler c = Some l"
    and "kind r = CANCELED"
    and "\<not> other_input_group l r" and "\<not> isCanceled c" and "\<not> isReturned l"
  shows "isCanceled (onResponse e c r)
     \<and> onResponseHandler (onResponse e c r)
         = Some (l\<lparr>outcome := Rejected (IOError CANCELED_ERROR)\<rparr>)
     \<and> sent (onResponse e c r) = sent c
     \<and> (\<forall>evs' cs gv.
           client_run e (onResponse e c r) evs' = onResponse e c r
           \<and> renderComponents e (client_run e (onResponse e c r) evs') cs gv
               = Inl (IOError TRANSACTION_CLOSED))"
proof -
  have "pending_invariant c"
    unfolding assms(2) by (rule pending_invariant_run [OF pending_invariant_new assms(1)])
  then have pending: "outcome l = Pending"
    using assms(3,6,7) by (simp add: pending_invariant_def)
  have h: "responseHandler e l c r
             = (None, l\<lparr>outcome := Rejected (IOError CANCELED_ERROR)\<rparr>, c\<lparr>isCanceled := True\<rparr>)"
    using assms(4-7) pending by (simp add: responseHandler_def)
  have o: "onResponse e c r
             = c\<lparr>isCanceled := True,
                 onResponseHandler := Some (l\<lparr>outcome := Rejected (IOError CANCELED_ERROR)\<rparr>)\<rparr>"
    using assms(3) h by (simp add: onResponse_def)
  have canceled: "isCanceled (onResponse e c r)" by (simp add: o)
  have later: "client_run e (onResponse e c r) evs' = onResponse e c r
      \<and> renderComponents e (client_run e (onResponse e c r) evs') cs gv
          = Inl (IOError TRANSACTION_CLOSED)" for evs' cs gv
    using canceled by (simp add: canceled_run renderComponents_refuses)
  show ?thesis
    using later by (simp add: o renderComponents_refuses)
qed

text \<open>C2 on the first render of a text input, canceled, then answered and rendered again.\<close>

theorem cancel_is_sticky_witness:
  "list_all fresh_call [RenderCall [name_input] None]
   \<and> first_render [name_input]
       = client_run example_env new_IOClient [RenderCall [name_input] None]
   \<and> onResponseHandler (first_render [name_input]) = Some (first_loop [name_input])
   \<and> kind (response_to ''u'' CANCELED []) = CANCELED
   \<and> \<not> other_input_group (first_loop [name_input]) (response_to ''u'' CANCELED [])
   \<and> \<not> isCanceled (first_render [name_input])
   \<and> \<not> isReturned (first_loop [name_input])
   \<and> isCanceled (onResponse example_env (first_render [name_input]) (response_to ''u'' CANCELED []))
   \<and> map_option outcome
       (onResponseHandler
          (onResponse example_env (first_render [name_input]) (response_to ''u'' CANCELED [])))
       = Some (Rejected (IOError CANCELED_ERROR))
   \<and> renderComponents example_env
       (client_run example_env
          (onResponse example_env (first_render [name_input]) (response_to ''u'' CANCELED []))
          [Response (response_to ''u'' RETURN [JStr ''ok''])])
       [name_input] None
       = Inl (IOError TRANSACTION_CLOSED)"
proof -
  have fresh: "list_all fresh_call [RenderCall [name_input] None]"
    using name_input_fresh by simp
  have run: "first_render [name_input]
     = client_run example_env new_IOClient [RenderCall [name_input] None]"
    by (simp add: first_render_def client_run_def)
  have facts:
    "onResponseHandler (first_render [name_input]) = Some (first_loop [name_input])"
    "kind (response_to ''u'' CANCELED []) = CANCELED"
    "\<not> other_input_group (first_loop [name_input]) (response_to ''u'' CANCELED [])"
    "\<not> isCanceled (first_render [name_input])"
    "\<not> isReturned (first_loop [name_input])"
    unfolding first_render_name_input
    by (simp_all add: first_loop_def response_to_def other_input_group_def)
  note concl = cancel_is_sticky [OF fresh run facts]
  from concl have refused:
    "renderComponents example_env
       (client_run example_env
          (onResponse example_env (first_render [name_input]) (response_to ''u'' CANCELED []))
          [Response (response_to ''u'' RETURN [JStr ''ok''])])
       [name_input] None
       = Inl (IOError TRANSACTION_CLOSED)"
    by blast
  from concl have settled:
    "isCanceled (onResponse example_env (first_render [name_input]) (response_to ''u'' CANCELED []))"
    "onResponseHandler
       (onResponse example_env (first_render [name_input]) (response_to ''u'' CANCELED []))
       = Some ((first_loop [name_input])\<lparr>outcome := Rejected (IOError CANCELED_ERROR)\<rparr>)"
    by blast+
  show ?thesis
    apply (rule conjI [OF fresh])
    apply (rule conjI [OF run])
    using refused settled facts apply simp
    done
qed

subsection \<open>The state field of a component\<close>

lemma setReturnValue_keeps_instance: "getInstance (snd (setReturnValue cm v)) = getInstance cm"
  by (simp add: setReturnValue_def split: option.splits)

lemma set_return_values_keep_state:
  "map (\<lambda>cm. state (getInstance cm)) (snd (set_return_values cs vs))
     = map (\<lambda>cm. state (getInstance cm)) cs"
proof (induction cs vs rule: set_return_values.induct)
  case (1 cs)
  show ?case by simp
next
  case (2 v vs)
  show ?case by simp
next
  case (3 cm cs v vs)
  obtain ex cm' where s: "setReturnValue cm v = (ex, cm')"
    by (cases "setReturnValue cm v") auto
  then have inst: "getInstance cm' = getInstance cm"
    using setReturnValue_keeps_instance [of cm v] by simp
  show ?case
  proof (cases ex)
    case (Some a)
    then show ?thesis using s inst by simp
  next
    case None
    then show ?thesis
      using s inst "3.IH" by (auto split: prod.splits)
  qed
qed

lemma finish_RETURN_keeps_state:
  assumes "finish_RETURN l c vs = (ex, l', c')"
  shows "map (\<lambda>cm. state (getInstance cm)) (components l')
           = map (\<lambda>cm. state (getInstance cm)) (components l)"
proof -
  obtain ex1 cs' where s: "set_return_values (components l) vs = (ex1, cs')"
    by (cases "set_return_values (components l) vs") auto
  then have "components l' = cs'"
    using assms by (auto simp: finish_RETURN_def Let_def)
  moreover have "cs' = snd (set_return_values (components l) vs)" using s by simp
  ultimately show ?thesis by (simp add: set_return_values_keep_state)
qed

lemma handle_RETURN_keeps_state:
  assumes "handle_RETURN e l c vs = (ex, l', c')"
  shows "map (\<lambda>cm. state (getInstance cm)) (components l')
           = map (\<lambda>cm. state (getInstance cm)) (components l)"
proof (cases "validities (components l) vs")
  case None
  then have "l' = l" using assms by (simp add: handle_RETURN_def)
  then show ?thesis by simp
next
  case (Some oks)
  show ?thesis
  proof (cases "list_ex (\<lambda>v. \<not> v) oks")
    case True
    then have "l' = l" using assms Some by (auto simp: handle_RETURN_def)
    then show ?thesis by simp
  next
    case valid: False
    show ?thesis
    proof (cases "groupValidator l")
      case None
      then have "finish_RETURN l c vs = (ex, l', c')"
        using assms Some valid by (simp add: handle_RETURN_def)
      from finish_RETURN_keeps_state [OF this] show ?thesis .
    next
      case (Some gv)
      show ?thesis
      proof (cases "truthy_string (gv vs)")
        case True
        then have "l' = l\<lparr>validationErrorMessage := gv vs\<rparr>"
          using assms \<open>validities (components l) vs = Some oks\<close> valid Some
          by (auto simp: handle_RETURN_def Let_def)
        then show ?thesis by simp
      next
        case False
        then have "finish_RETURN (l\<lparr>validationErrorMessage := gv vs\<rparr>) c vs = (ex, l', c')"
          using assms \<open>validities (components l) vs = Some oks\<close> valid Some
          by (simp add: handle_RETURN_def Let_def)
        from finish_RETURN_keeps_state [OF this] show ?thesis by simp
      qed
    qed
  qed
qed

lemma handle_SET_STATE_keeps_state:
  assumes "handle_SET_STATE e l c vs = (ex, l', c')"
  shows "map (\<lambda>cm. state (getInstance cm)) (components l')
           = map (\<lambda>cm. state (getInstance cm)) (components l)"
proof -
  obtain ex1 c1 where ss: "set_states e 0 vs l c = (ex1, l', c1)"
    using assms
    by (auto simp: handle_SET_STATE_def split: prod.splits option.splits)
  from set_states_frame(8) [OF ss] show ?thesis .
qed

lemma responseHandler_keeps_state:
  assumes "responseHandler e l c r = (ex, l', c')"
  shows "map (\<lambda>cm. state (getInstance cm)) (components l')
           = map (\<lambda>cm. state (getInstance cm)) (components l)"
proof (cases "other_input_group l r \<or> isCanceled c \<or> isReturned l")
  case True
  then have "l' = l" using assms by (auto simp: responseHandler_def split: if_splits)
  then show ?thesis by simp
next
  case active: False
  show ?thesis
  proof (cases "kind r")
    case CANCELED
    then have "l' = l\<lparr>outcome := reject (outcome l) (IOError CANCELED_ERROR)\<rparr>"
      using assms active by (simp add: responseHandler_def)
    then show ?thesis by simp
  next
    case RETURN
    show ?thesis
    proof (cases "length (resp_values r) \<noteq> length (components l)")
      case True
      then have "l' = l" using assms active RETURN by (simp add: responseHandler_def)
      then show ?thesis by simp
    next
      case False
      then have "handle_RETURN e l c (deserialized_values e r) = (ex, l', c')"
        using assms active RETURN by (simp add: responseHandler_def)
      from handle_RETURN_keeps_state [OF this] show ?thesis .
    qed
  next
    case SET_STATE
    show ?thesis
    proof (cases "length (resp_values r) \<noteq> length (components l)")
      case True
      then have "l' = l" using assms active SET_STATE by (simp add: responseHandler_def)
      then show ?thesis by simp
    next
      case False
      then have "handle_SET_STATE e l c (deserialized_values e r) = (ex, l', c')"
        using assms active SET_STATE by (simp add: responseHandler_def)
      from handle_SET_STATE_keeps_state [OF this] show ?thesis .
    qed
  qed
qed

lemma all_null_by_map:
  "list_all (\<lambda>cm. state (getInstance cm) = JNull) cs
     \<longleftrightarrow> list_all (\<lambda>s. s = JNull) (map (\<lambda>cm. state (getInstance cm)) cs)"
  by (simp add: list_all_iff)

lemma null_state_invariant_new: "null_state_invariant new_IOClient"
  by (simp add: null_state_invariant_def new_IOClient_def)

lemma null_state_invariant_step:
  assumes "null_state_invariant c" and "null_state_call ev"
  shows "null_state_invariant (client_step e c ev)"
proof (cases ev)
  case (RenderCall cs gv)
  show ?thesis
  proof (cases "isCanceled c")
    case True
    then show ?thesis
      using assms RenderCall by (simp add: renderComponents_refuses)
  next
    case False
    have "list_all (\<lambda>cm. state (getInstance cm) = JNull) (map (\<lambda>cm. onStateChange cm Render) cs)"
      using assms(2) RenderCall by (simp add: list_all_iff onStateChange_def)
    with renderComponents_accepts [OF False, of e cs gv] show ?thesis
      using RenderCall by (auto simp: null_state_invariant_def)
  qed
next
  case (Response r)
  show ?thesis
  proof (cases "onResponseHandler c")
    case None
    then show ?thesis using assms Response by (simp add: onResponse_no_handler)
  next
    case (Some l)
    from onResponse_split [OF Some, of e r] obtain ex l' c' where
      h: "responseHandler e l c r = (ex, l', c')"
      and o: "onResponse e c r
           = c'\<lparr>onResponseHandler := Some l',
                unhandled := unhandled c' @ (case ex of None \<Rightarrow> [] | Some x \<Rightarrow> [x])\<rparr>"
      by blast
    from assms(1) Some have "list_all (\<lambda>cm. state (getInstance cm) = JNull) (components l)"
      by (simp add: null_state_invariant_def)
    then have "list_all (\<lambda>cm. state (getInstance cm) = JNull) (components l')"
      unfolding all_null_by_map responseHandler_keeps_state [OF h] .
    then show ?thesis using Response o by (simp add: null_state_invariant_def)
  qed
qed

lemma null_state_invariant_run:
  "null_state_invariant c \<Longrightarrow> list_all null_state_call evs \<Longrightarrow>
     null_state_invariant (client_run e c evs)"
  unfolding client_run_def
  by (induction evs arbitrary: c) (simp_all add: null_state_invariant_step)

lemma set_states_compare_null:
  "list_all (\<lambda>cm. state (getInstance cm) = JNull) (components l) \<Longrightarrow>
     set_states e i vs l c = set_states_against_null e i vs l c"
proof (induction vs arbitrary: i l c)
  case Nil
  show ?case by simp
next
  case (Cons newState rest)
  show ?case
  proof (cases "i \<ge> length (components l)")
    case True
    then show ?thesis by simp
  next
    case inside: False
    then have prev: "state (getInstance (components l ! i)) = JNull"
      using Cons.prems by (simp add: list_all_length)
    show ?thesis
    proof (cases "JSON_stringify e newState \<noteq> JSON_stringify e JNull")
      case False
      then show ?thesis using inside prev Cons.IH [OF Cons.prems] by (simp add: Let_def)
    next
      case differs: True
      obtain ex1 cm' cb where st: "setState (components l ! i) newState = (ex1, cm', cb)"
        by (cases "setState (components l ! i) newState") auto
      show ?thesis
      proof (cases ex1)
        case (Some ex)
        then show ?thesis using inside prev differs st by (simp add: Let_def)
      next
        case None
        have "state (getInstance cm') = JNull"
          using setState_keeps_state [of "components l ! i" newState] st prev by simp
        then have "list_all (\<lambda>cm. state (getInstance cm) = JNull) ((components l)[i := cm'])"
          using Cons.prems inside by (auto simp: list_all_length nth_list_update)
        then have "list_all (\<lambda>cm. state (getInstance cm) = JNull)
                     (components (l\<lparr>components := (components l)[i := cm']\<rparr>))"
          by simp
        from Cons.IH [OF this] show ?thesis
          using inside prev differs st None by (simp add: Let_def)
      qed
    qed
  qed
qed

text \<open>
  C10. A component is constructed with \<open>state\<close> \<open>null\<close>, and no call on it writes that
  field: not \<open>setState\<close> (which validates the incoming state, lets the state-change handler
  replace the props and calls the observer), nor any sequence of \<open>setState\<close>, \<open>setProps\<close>,
  \<open>setReturnValue\<close> and \<open>onStateChange\<close> calls. So in every state a client can reach when the
  components it is given are as constructed, the components of the active loop still have
  \<open>state\<close> \<open>null\<close>, and the \<open>SET_STATE\<close> loop does exactly what it would do if it compared
  each incoming state with \<open>null\<close>.
\<close>

theorem setState_never_writes_state:
  "state (getInstance (component ioSchema mn lbl initialProps hsc)) = JNull
   \<and> state (getInstance (fst (snd (setState cm v)))) = state (getInstance cm)
   \<and> state (getInstance (foldl component_step cm calls)) = state (getInstance cm)
   \<and> (list_all null_state_call evs \<and> onResponseHandler (client_run e new_IOClient evs) = Some l
        \<longrightarrow> list_all (\<lambda>cm. state (getInstance cm) = JNull) (components l)
            \<and> set_states e i vs l c = set_states_against_null e i vs l c)"
proof -
  have reach: "list_all (\<lambda>cm. state (getInstance cm) = JNull) (components l)"
    if "list_all null_state_call evs" "onResponseHandler (client_run e new_IOClient evs) = Some l"
    using null_state_invariant_run [OF null_state_invariant_new that(1), of e] that(2)
    by (simp add: null_state_invariant_def)
  show ?thesis
    using reach set_states_compare_null [of l e i vs c]
    by (simp add: component_def setState_keeps_state component_calls_keep_state)
qed

text \<open>
  C10 on the search box: \<open>setState("abc")\<close> replaces its props and leaves its state
  \<open>null\<close>, and after two \<open>SET_STATE\<close> responses for the first render the state is still
  \<open>null\<close>.
\<close>

theorem setState_never_writes_state_witness:
  "props (getInstance (fst (snd (setState user_search (JStr ''abc''))))) = JArr [JStr ''abc'']
   \<and> state (getInstance (fst (snd (setState user_search (JStr ''abc''))))) = JNull
   \<and> list_all null_state_call [RenderCall [user_search] None]
   \<and> onResponseHandler (client_run example_env new_IOClient [RenderCall [user_search] None])
       = Some (first_loop [user_search])
   \<and> list_all (\<lambda>cm. state (getInstance cm) = JNull) (components (first_loop [user_search]))
   \<and> set_states example_env 0 [JStr ''abc''] (first_loop [user_search]) new_IOClient
       = set_states_against_null example_env 0 [JStr ''abc''] (first_loop [user_search]) new_IOClient"
proof -
  have null_call: "list_all null_state_call [RenderCall [user_search] None]"
    by (simp add: user_search_def component_def)
  have fresh: "[user_search] \<noteq> []" "list_all (\<lambda>cm. returnValue cm = Pending) [user_search]"
    by (simp_all add: user_search_def component_def)
  have handler: "onResponseHandler (client_run example_env new_IOClient [RenderCall [user_search] None])
       = Some (first_loop [user_search])"
    using first_render_fresh [OF fresh] by (simp add: client_run_def first_render_def)
  have changed:
    "props (getInstance (fst (snd (setState user_search (JStr ''abc''))))) = JArr [JStr ''abc'']"
    by (simp add: user_search_def component_def setState_def example_ioSchema_def
          search_schema_def)
  note concl = setState_never_writes_state
      [of example_ioSchema "''SEARCH''" "''user''" "JArr []" "Some (\<lambda>query. JArr [query])"
          user_search "JStr ''abc''" "[]" "[RenderCall [user_search] None]" example_env
          "first_loop [user_search]" 0 "[JStr ''abc'']" new_IOClient]
  show ?thesis
    using concl null_call handler changed
    by (simp add: user_search_def [symmetric])
qed

section \<open>Properties of the host controller\<close>

lemma callers_numbered_new: "callers_numbered new_host"
  by (simp add: callers_numbered_def new_host_def)

lemma callers_numbered_step: "callers_numbered h \<Longrightarrow> callers_numbered (host_step config h ev)"
proof (cases ev)
  case (StartTransaction transactionId actionName)
  assume "callers_numbered h"
  then show ?thesis
    using StartTransaction
    by (auto simp: callers_numbered_def START_TRANSACTION_def list_all_iff)
next
  case (IoResponse transactionId v)
  assume "callers_numbered h"
  then show ?thesis
    using IoResponse
    by (simp add: callers_numbered_def IO_RESPONSE_def split: option.splits)
next
  case (ActionResolves n)
  assume "callers_numbered h"
  then show ?thesis
    using ActionResolves
    by (auto simp: callers_numbered_def action_resolves_def list_all_iff split: option.splits)
next
  case (ActionRejects n)
  assume "callers_numbered h"
  then show ?thesis
    using ActionRejects
    by (auto simp: callers_numbered_def action_rejects_def list_all_iff)
next
  case (CallerSend n ioCall)
  assume "callers_numbered h"
  then show ?thesis
    using CallerSend
    by (simp add: callers_numbered_def caller_send_def split: option.splits)
qed

lemma callers_numbered_run:
  "callers_numbered h \<Longrightarrow> callers_numbered (host_run config h evs)"
  unfolding host_run_def
  by (induction evs arbitrary: h) (simp_all add: callers_numbered_step)

text \<open>Nothing takes an entry out of \<open>inProgressTransactions\<close>.\<close>

lemma entry_stays_step:
  "inProgressTransactions h transactionId \<noteq> None \<Longrightarrow>
     inProgressTransactions (host_step config h ev) transactionId \<noteq> None"
  by (cases ev)
     (auto simp: START_TRANSACTION_def IO_RESPONSE_def action_resolves_def
        action_rejects_def caller_send_def split: option.splits)

lemma entry_stays_run:
  "inProgressTransactions h transactionId \<noteq> None \<Longrightarrow>
     inProgressTransactions (host_run config h evs) transactionId \<noteq> None"
  unfolding host_run_def
proof (induction evs arbitrary: h)
  case Nil
  then show ?case by simp
next
  case (Cons ev evs)
  from Cons.prems have "inProgressTransactions (host_step config h ev) transactionId \<noteq> None"
    by (rule entry_stays_step)
  from Cons.IH [OF this] show ?case by simp
qed

lemma map_of_append_new:
  "list_all (\<lambda>p. fst p < (n :: nat)) ps \<Longrightarrow> map_of (ps @ [(n, v)]) n = Some v"
  by (induction ps) auto

lemma map_of_filter_other:
  "m \<noteq> n \<Longrightarrow> map_of (filter (\<lambda>p. fst p \<noteq> m) ps) n = map_of ps n"
  by (induction ps) auto

text \<open>An action's promise stays pending until an event settles it.\<close>

lemma pending_stays_step:
  assumes "map_of (invoked h) n = Some transactionId" and "\<not> settles n ev"
  shows "map_of (invoked (host_step config h ev)) n = Some transactionId"
proof (cases ev)
  case (StartTransaction tx actionName)
  then show ?thesis
    using assms(1) by (simp add: START_TRANSACTION_def)
next
  case (IoResponse tx v)
  then show ?thesis
    using assms(1) by (simp add: IO_RESPONSE_def split: option.splits)
next
  case (ActionResolves m)
  then have "m \<noteq> n" using assms(2) by simp
  then show ?thesis
    using assms(1) ActionResolves
    by (simp add: action_resolves_def map_of_filter_other split: option.splits)
next
  case (ActionRejects m)
  then have "m \<noteq> n" using assms(2) by simp
  then show ?thesis
    using assms(1) ActionRejects
    by (simp add: action_rejects_def map_of_filter_other)
next
  case (CallerSend m ioCall)
  then show ?thesis
    using assms(1) by (simp add: caller_send_def split: option.splits)
qed

lemma pending_stays_run:
  "map_of (invoked h) n = Some transactionId \<Longrightarrow> list_all (\<lambda>ev. \<not> settles n ev) evs \<Longrightarrow>
     map_of (invoked (host_run config h evs)) n = Some transactionId"
  unfolding host_run_def
proof (induction evs arbitrary: h)
  case Nil
  then show ?case by simp
next
  case (Cons ev evs)
  from Cons.prems have "map_of (invoked (host_step config h ev)) n = Some transactionId"
    by (simp add: pending_stays_step)
  from Cons.IH [OF this] Cons.prems(2) show ?case by simp
qed

text \<open>
  C8, as amended. In any state the host can reach, a \<open>START_TRANSACTION\<close> whose action name
  is a key of \<open>config.actions\<close> puts the transaction id into the table (mapped to the reply
  handler of a new caller) and invokes the action, without sending anything yet. Whatever
  happens before that action's promise settles (IO calls, responses, other transactions
  starting and ending), when it resolves \<open>MARK_TRANSACTION_COMPLETE\<close> for that transaction
  id is sent. The table is left as it is then: the entry is not removed, nor does anything
  that happens later remove it.
\<close>

theorem start_transaction_marks_complete:
  assumes "h = host_run config new_host evs"
    and "actionName \<in> set (actions config)"
    and "START_TRANSACTION config h transactionId actionName = (ex, h1)"
    and "list_all (\<lambda>ev. \<not> settles (callers h) ev) evs1"
    and "h2 = host_run config h1 evs1"
    and "h3 = action_resolves h2 (callers h)"
  shows "ex = None
     \<and> inProgressTransactions h1 transactionId = Some (callers h)
     \<and> map_of (invoked h1) (callers h) = Some transactionId
     \<and> rpc_log h1 = rpc_log h
     \<and> rpc_log h3 = rpc_log h2 @ [MARK_TRANSACTION_COMPLETE transactionId]
     \<and> inProgressTransactions h3 = inProgressTransactions h2
     \<and> inProgressTransactions h3 transactionId \<noteq> None
     \<and> (\<forall>evs'. inProgressTransactions (host_run config h3 evs') transactionId \<noteq> None)"
proof -
  have "callers_numbered h"
    unfolding assms(1) by (rule callers_numbered_run [OF callers_numbered_new])
  then have inv: "map_of (invoked h @ [(callers h, transactionId)]) (callers h) = Some transactionId"
    unfolding callers_numbered_def by (rule map_of_append_new)
  have ex: "ex = None"
    and h1: "h1 = h\<lparr>inProgressTransactions := (inProgressTransactions h)(transactionId \<mapsto> callers h),
                   callers := Suc (callers h),
                   caller_transaction := (caller_transaction h)(callers h \<mapsto> transactionId),
                   invoked := invoked h @ [(callers h, transactionId)]\<rparr>"
    using assms(2,3) by (simp_all add: START_TRANSACTION_def)
  have first: "inProgressTransactions h1 transactionId = Some (callers h)
     \<and> map_of (invoked h1) (callers h) = Some transactionId
     \<and> rpc_log h1 = rpc_log h"
    using inv by (simp add: h1)
  then have "map_of (invoked h1) (callers h) = Some transactionId" by simp
  then have pending: "map_of (invoked h2) (callers h) = Some transactionId"
    unfolding assms(5) using assms(4) by (rule pending_stays_run)
  have h3: "h3 = h2\<lparr>invoked := filter (\<lambda>p. fst p \<noteq> callers h) (invoked h2),
                    rpc_log := rpc_log h2 @ [MARK_TRANSACTION_COMPLETE transactionId]\<rparr>"
    using assms(6) pending by (simp add: action_resolves_def)
  have "inProgressTransactions h1 transactionId \<noteq> None" using first by simp
  then have "inProgressTransactions h2 transactionId \<noteq> None"
    unfolding assms(5) by (rule entry_stays_run)
  then have entry: "inProgressTransactions h3 transactionId \<noteq> None" by (simp add: h3)
  then have later: "inProgressTransactions (host_run config h3 evs') transactionId \<noteq> None" for evs'
    by (rule entry_stays_run)
  have log: "rpc_log h3 = rpc_log h2 @ [MARK_TRANSACTION_COMPLETE transactionId]"
    and table: "inProgressTransactions h3 = inProgressTransactions h2"
    by (simp_all add: h3)
  show ?thesis using ex first log table entry later by blast
qed

text \<open>The amended C8 on a new host with the action \<open>hello\<close> and the transaction \<open>tx1\<close>: the
  action sends an IO call and gets a response before it resolves, and a response arrives
  late.\<close>

theorem start_transaction_marks_complete_witness:
  "new_host = host_run example_config new_host []
   \<and> ''hello'' \<in> set (actions example_config)
   \<and> list_all (\<lambda>ev. \<not> settles (callers new_host) ev)
        [CallerSend 0 ''render'', IoResponse ''tx1'' ''reply'']
   \<and> fst (START_TRANSACTION example_config new_host ''tx1'' ''hello'') = None
   \<and> inProgressTransactions (snd (START_TRANSACTION example_config new_host ''tx1'' ''hello''))
        ''tx1'' = Some 0
   \<and> rpc_log
        (action_resolves
           (host_run example_config (snd (START_TRANSACTION example_config new_host ''tx1'' ''hello''))
              [CallerSend 0 ''render'', IoResponse ''tx1'' ''reply''])
           0)
       = [SEND_IO_CALL ''tx1'' ''render'', MARK_TRANSACTION_COMPLETE ''tx1'']
   \<and> inProgressTransactions
        (host_run example_config
           (action_resolves
              (host_run example_config
                 (snd (START_TRANSACTION example_config new_host ''tx1'' ''hello''))
                 [CallerSend 0 ''render'', IoResponse ''tx1'' ''reply''])
              0)
           [IoResponse ''tx1'' ''late''])
        ''tx1'' \<noteq> None"
proof -
  have run: "new_host = host_run example_config new_host []"
    by (simp add: host_run_def)
  have known: "''hello'' \<in> set (actions example_config)"
    by (simp add: example_config_def)
  have zero: "callers new_host = 0" by (simp add: new_host_def)
  have quiet: "list_all (\<lambda>ev. \<not> settles (callers new_host) ev)
        [CallerSend 0 ''render'', IoResponse ''tx1'' ''reply'']"
    by simp
  have started: "START_TRANSACTION example_config new_host ''tx1'' ''hello''
      = (fst (START_TRANSACTION example_config new_host ''tx1'' ''hello''),
         snd (START_TRANSACTION example_config new_host ''tx1'' ''hello''))"
    by simp
  note concl = start_transaction_marks_complete [OF run known started quiet refl refl]
  have sent_before: "rpc_log
        (host_run example_config (snd (START_TRANSACTION example_config new_host ''tx1'' ''hello''))
           [CallerSend 0 ''render'', IoResponse ''tx1'' ''reply''])
      = [SEND_IO_CALL ''tx1'' ''render'']"
    by (simp add: host_run_def START_TRANSACTION_def example_config_def new_host_def
          caller_send_def IO_RESPONSE_def)
  from concl have later:
    "inProgressTransactions
        (host_run example_config
           (action_resolves
              (host_run example_config
                 (snd (START_TRANSACTION example_config new_host ''tx1'' ''hello''))
                 [CallerSend 0 ''render'', IoResponse ''tx1'' ''reply''])
              0)
           [IoResponse ''tx1'' ''late''])
        ''tx1'' \<noteq> None"
    unfolding zero by blast
  from concl have now:
    "fst (START_TRANSACTION example_config new_host ''tx1'' ''hello'') = None"
    "inProgressTransactions (snd (START_TRANSACTION example_config new_host ''tx1'' ''hello''))
        ''tx1'' = Some 0"
    "rpc_log
        (action_resolves
           (host_run example_config (snd (START_TRANSACTION example_config new_host ''tx1'' ''hello''))
              [CallerSend 0 ''render'', IoResponse ''tx1'' ''reply''])
           0)
       = rpc_log
           (host_run example_config (snd (START_TRANSACTION example_config new_host ''tx1'' ''hello''))
              [CallerSend 0 ''render'', IoResponse ''tx1'' ''reply''])
         @ [MARK_TRANSACTION_COMPLETE ''tx1'']"
    unfolding zero by blast+
  show ?thesis
    apply (rule conjI [OF run])
    apply (rule conjI [OF known])
    apply (rule conjI [OF quiet])
    using now later sent_before apply simp
    done
qed

text \<open>
  C8, as stated, fails in its last part: after \<open>START_TRANSACTION\<close> for \<open>tx1\<close> and the
  action's promise resolving, \<open>MARK_TRANSACTION_COMPLETE\<close> has been sent and \<open>tx1\<close> is still
  in the table.
\<close>

theorem completed_transaction_stays_in_table:
  "rpc_log
     (action_resolves (snd (START_TRANSACTION example_config new_host ''tx1'' ''hello'')) 0)
     = [MARK_TRANSACTION_COMPLETE ''tx1'']
   \<and> inProgressTransactions
        (action_resolves (snd (START_TRANSACTION example_config new_host ''tx1'' ''hello'')) 0)
        ''tx1''
     = Some 0"
  by (simp add: START_TRANSACTION_def action_resolves_def example_config_def new_host_def)

text \<open>
  C9 on the code. Whatever the connection and the \<open>INITIALIZE_HOST\<close> call turn out to be,
  the promise \<open>createIntervalHost\<close> hands to its caller is fulfilled with \<open>true\<close>. When the
  call answers \<open>false\<close>, \<open>setup\<close>'s promise is rejected with
  \<open>Error('The provided API key is not valid')\<close>, and when the call rejects, with the call's
  error; that promise is held by nobody.
\<close>

theorem createIntervalHost_returns_true:
  "created (createIntervalHost config connected loggedIn) = Fulfilled True
   \<and> setup_promise (createIntervalHost example_config (Resolves ()) (Resolves None))
       = Rejected (Error ''The provided API key is not valid'')
   \<and> created (createIntervalHost example_config (Resolves ()) (Resolves None)) = Fulfilled True
   \<and> setup_promise (createIntervalHost example_config (Resolves ()) (Rejects (Error ''closed'')))
       = Rejected (Error ''closed'')
   \<and> created (createIntervalHost example_config (Resolves ()) (Rejects (Error ''closed'')))
       = Fulfilled True"
  by (simp add: createIntervalHost_def setup_connection_def split: prod.splits)

end
